theory Spec2Isabelle
  imports Complex_Main "HOL-Library.AList" "HOL-Library.Sublist"
begin

section \<open>Places, errors and the road graph\<close>

text \<open>
  The robot project (\<^verbatim>\<open>src/robot.js\<close>) works on place names. A place is a string; the
  only other value that can stand where a place is expected is \<^verbatim>\<open>undefined\<close>, which
  the destructuring \<^verbatim>\<open>[from, to]\<close> yields for a road description without a dash.
  Loose equality \<^verbatim>\<open>==\<close> on these values is equality of the datatype. Used as the key
  of an object, \<^verbatim>\<open>undefined\<close> is converted to the string \<^verbatim>\<open>"undefined"\<close>.
\<close>

datatype place = Undefined | Str string

fun key_of :: "place \<Rightarrow> string" where
  "key_of Undefined = ''undefined''"
| "key_of (Str s) = s"

text \<open>
  The program has no error class of its own. Every failure is a \<^verbatim>\<open>TypeError\<close> raised
  by the language: reading a property of \<^verbatim>\<open>undefined\<close> (the constructor carries the
  property's name), iterating \<^verbatim>\<open>undefined\<close> in \<^verbatim>\<open>for (let place of graph[at])\<close>,
  and \<^verbatim>\<open>reduce\<close> on an empty array without an initial value.
\<close>

datatype error = CannotReadUndefined string | NotIterable | ReduceEmpty

text \<open>
  \<^verbatim>\<open>buildGraph\<close> fills an object created by \<^verbatim>\<open>Object.create(null)\<close>: a dictionary
  with no inherited keys, whose keys keep their insertion order. It is an association
  list here; \<open>AList.update\<close> overwrites a key in place and appends a new key at the end.
  \<open>js_split\<close> is \<^verbatim>\<open>String.prototype.split\<close> with a one-character separator,
  \<open>element\<close> reads an array position that may be missing, and \<open>destructure\<close> is the
  pattern \<^verbatim>\<open>[from, to]\<close> of the loop over the split road descriptions.
\<close>

type_synonym graph = "(string \<times> place list) list"

fun js_split :: "char \<Rightarrow> string \<Rightarrow> string list" where
  "js_split c [] = [[]]"
| "js_split c (x # xs) =
     (if x = c then [] # js_split c xs
      else (case js_split c xs of [] \<Rightarrow> [[x]] | w # ws \<Rightarrow> (x # w) # ws))"

definition element :: "string list \<Rightarrow> nat \<Rightarrow> place" where
  "element xs i = (if i < length xs then Str (xs ! i) else Undefined)"

definition addEdge :: "graph \<Rightarrow> place \<Rightarrow> place \<Rightarrow> graph" where
  "addEdge graph from to =
     (case map_of graph (key_of from) of
        Some ns \<Rightarrow> AList.update (key_of from) (ns @ [to]) graph
      | None \<Rightarrow> AList.update (key_of from) [to] graph)"

definition destructure :: "string list \<Rightarrow> place \<times> place" where
  "destructure parts = (element parts 0, element parts 1)"

definition buildGraph :: "string list \<Rightarrow> graph" where
  "buildGraph edges =
     foldl (\<lambda>graph parts. case destructure parts of (from, to) \<Rightarrow>
              addEdge (addEdge graph from to) to from)
       [] (map (js_split CHR ''-'') edges)"

text \<open>The lookup \<^verbatim>\<open>graph[p]\<close>; \<open>None\<close> is \<^verbatim>\<open>undefined\<close>.\<close>

definition graph_get :: "graph \<Rightarrow> place \<Rightarrow> place list option" where
  "graph_get graph p = map_of graph (key_of p)"

text \<open>The roads of the village and the graph the program builds from them.\<close>

definition roads :: "string list" where
  "roads = [
    ''Alice's House-Bob's House'',
    ''Alice's House-Cabin'',
    ''Alice's House-Post Office'',
    ''Bob's House-Town Hall'',
    ''Daria's House-Ernie's House'',
    ''Daria's House-Town Hall'',
    ''Ernie's House-Grete's House'',
    ''Grete's House-Farm'',
    ''Grete's House-Shop'',
    ''Marketplace-Farm'',
    ''Marketplace-Post Office'',
    ''Marketplace-Shop'',
    ''Marketplace-Town Hall'',
    ''Shop-Town Hall'']"

definition roadGraph :: graph where
  "roadGraph = buildGraph roads"

section \<open>Route finding\<close>

text \<open>
  \<^verbatim>\<open>findRoute\<close> keeps a work list of records \<^verbatim>\<open>{at, route}\<close> (the field \<^verbatim>\<open>at\<close> is
  written \<open>at'\<close>) and walks it by index while it grows. \<open>findRoute_places\<close> is the inner
  loop over the neighbours of one work item: it either returns the finished route or
  hands back the extended work list. \<open>findRoute_work\<close> is the outer loop; falling off
  its end returns \<^verbatim>\<open>undefined\<close>, which is \<open>Inr None\<close>. The outer loop
  terminates because every place is added to the work list at most once.
\<close>

record work_item =
  at' :: place
  route :: "place list"

datatype scan = Found "place list" | Work "work_item list"

fun findRoute_places :: "place \<Rightarrow> place list \<Rightarrow> place list \<Rightarrow> work_item list \<Rightarrow> scan" where
  "findRoute_places to rt [] work = Work work"
| "findRoute_places to rt (p # rest) work =
     (if p = to then Found (rt @ [p])
      else if \<not> list_ex (\<lambda>w. at' w = p) work
           then findRoute_places to rt rest (work @ [\<lparr>at' = p, route = rt @ [p]\<rparr>])
           else findRoute_places to rt rest work)"

definition graph_places :: "graph \<Rightarrow> place set" where
  "graph_places graph = (\<Union>e \<in> set graph. set (snd e))"

lemma finite_graph_places: "finite (graph_places graph)"
  by (simp add: graph_places_def)

lemma graph_get_places: "graph_get graph p = Some ns \<Longrightarrow> set ns \<subseteq> graph_places graph"
  unfolding graph_get_def graph_places_def by (auto dest!: map_of_SomeD)

lemma findRoute_places_extends:
  "findRoute_places to rt ns work = Work work' \<Longrightarrow> \<exists>ext. work' = work @ ext"
proof (induction ns arbitrary: work)
  case Nil
  then show ?case by simp
next
  case (Cons p rest)
  show ?case
  proof (cases "list_ex (\<lambda>w. at' w = p) work")
    case True
    with Cons show ?thesis by (simp split: if_splits)
  next
    case False
    with Cons.prems have "findRoute_places to rt rest (work @ [\<lparr>at' = p, route = rt @ [p]\<rparr>]) = Work work'"
      by (simp split: if_splits)
    from Cons.IH[OF this] obtain ext where "work' = (work @ [\<lparr>at' = p, route = rt @ [p]\<rparr>]) @ ext"
      by blast
    then have "work' = work @ (\<lparr>at' = p, route = rt @ [p]\<rparr> # ext)" by simp
    then show ?thesis by blast
  qed
qed

lemma findRoute_places_measure:
  assumes "findRoute_places to rt ns work = Work work'" "set ns \<subseteq> U" "finite U"
  shows "card (U - at' ` set work') + length work' = card (U - at' ` set work) + length work"
  using assms
proof (induction ns arbitrary: work)
  case Nil
  then show ?case by simp
next
  case (Cons p rest)
  from Cons.prems(1) have neq: "p \<noteq> to" by (auto split: if_splits)
  show ?case
  proof (cases "list_ex (\<lambda>w. at' w = p) work")
    case True
    with Cons neq show ?thesis by simp
  next
    case False
    let ?work2 = "work @ [\<lparr>at' = p, route = rt @ [p]\<rparr>]"
    from False have notin: "p \<notin> at' ` set work" by (auto simp: list_ex_iff)
    from Cons.prems(2) have inU: "p \<in> U" by simp
    from False neq Cons.prems(1) have "findRoute_places to rt rest ?work2 = Work work'" by simp
    with Cons.IH Cons.prems have
      "card (U - at' ` set work') + length work' = card (U - at' ` set ?work2) + length ?work2"
      by simp
    moreover have "at' ` set ?work2 = insert p (at' ` set work)" by simp
    moreover have "card (U - insert p (at' ` set work)) + 1 = card (U - at' ` set work)"
    proof -
      have "p \<in> U - at' ` set work" using inU notin by simp
      moreover have "finite (U - at' ` set work)" using Cons.prems(3) by simp
      ultimately have "card (U - at' ` set work - {p}) + 1 = card (U - at' ` set work)"
        using card_Suc_Diff1[of "U - at' ` set work" p] by simp
      moreover have "U - at' ` set work - {p} = U - insert p (at' ` set work)" by auto
      ultimately show ?thesis by simp
    qed
    ultimately show ?thesis by simp
  qed
qed

function findRoute_work :: "graph \<Rightarrow> place \<Rightarrow> nat \<Rightarrow> work_item list \<Rightarrow> error + place list option" where
  "findRoute_work graph to i work =
     (if i < length work then
        (case graph_get graph (at' (work ! i)) of
           None \<Rightarrow> Inl NotIterable
         | Some ns \<Rightarrow>
            (case findRoute_places to (route (work ! i)) ns work of
               Found r \<Rightarrow> Inr (Some r)
             | Work work' \<Rightarrow> findRoute_work graph to (i + 1) work'))
      else Inr None)"
  by pat_completeness auto
termination
proof (relation "measure (\<lambda>(graph, to, i, work). card (graph_places graph - at' ` set work) + (length work - i))")
  show "wf (measure (\<lambda>(graph, to, i, work). card (graph_places graph - at' ` set work) + (length work - i)))"
    by simp
next
  fix graph :: graph and to i and work :: "work_item list" and ns work'
  assume i: "i < length work" and g: "graph_get graph (at' (work ! i)) = Some ns"
    and w: "findRoute_places to (route (work ! i)) ns work = Work work'"
  have "card (graph_places graph - at' ` set work') + length work'
      = card (graph_places graph - at' ` set work) + length work"
    by (rule findRoute_places_measure[OF w graph_get_places[OF g] finite_graph_places])
  moreover from findRoute_places_extends[OF w] have "length work \<le> length work'" by auto
  ultimately show "((graph, to, i + 1, work'), (graph, to, i, work))
      \<in> measure (\<lambda>(graph, to, i, work). card (graph_places graph - at' ` set work) + (length work - i))"
    using i by simp
qed

declare findRoute_work.simps [simp del]

definition findRoute :: "graph \<Rightarrow> place \<Rightarrow> place \<Rightarrow> error + place list option" where
  "findRoute graph from to = findRoute_work graph to 0 [\<lparr>at' = from, route = []\<rparr>]"

subsection \<open>Routes in a graph\<close>

text \<open>
  The vocabulary of the claims. The neighbours of a place are the entry of its key in
  the graph (none when there is no entry). A walk from \<open>a\<close> is a list of places in
  which each place is a neighbour of the one before it, the first being a neighbour of
  \<open>a\<close>; it is the shape of the routes that \<open>findRoute\<close> returns, which leave out the
  start. \<open>route_to graph from to r\<close> says that \<open>r\<close> is such a walk of at least one step
  that ends at \<open>to\<close>. A place is registered when its key has an entry, and a graph is
  closed when every place listed as a neighbour is registered.
\<close>

definition neighbours :: "graph \<Rightarrow> place \<Rightarrow> place list" where
  "neighbours graph p = (case graph_get graph p of None \<Rightarrow> [] | Some ns \<Rightarrow> ns)"

fun walk :: "graph \<Rightarrow> place \<Rightarrow> place list \<Rightarrow> bool" where
  "walk graph a [] = True"
| "walk graph a (p # ps) = (p \<in> set (neighbours graph a) \<and> walk graph p ps)"

definition route_to :: "graph \<Rightarrow> place \<Rightarrow> place \<Rightarrow> place list \<Rightarrow> bool" where
  "route_to graph from to r \<longleftrightarrow> r \<noteq> [] \<and> walk graph from r \<and> last r = to"

definition registered :: "graph \<Rightarrow> place \<Rightarrow> bool" where
  "registered graph p \<longleftrightarrow> key_of p \<in> fst ` set graph"

definition closed_graph :: "graph \<Rightarrow> bool" where
  "closed_graph graph \<longleftrightarrow> (\<forall>p. \<forall>q \<in> set (neighbours graph p). registered graph q)"

lemma walk_append:
  "walk graph a (xs @ ys) \<longleftrightarrow> walk graph a xs \<and> walk graph (last (a # xs)) ys"
  by (induction xs arbitrary: a) auto

lemma graph_get_None_iff: "graph_get graph p = None \<longleftrightarrow> \<not> registered graph p"
  by (simp add: graph_get_def registered_def map_of_eq_None_iff)

lemma neighbours_registered:
  assumes "closed_graph graph" "q \<in> set (neighbours graph p)"
  shows "registered graph q"
  using assms unfolding closed_graph_def by blast

lemma walk_registered:
  assumes "closed_graph graph" "registered graph a" "walk graph a r"
  shows "registered graph (last (a # r))"
  using assms(2,3)
proof (induction r arbitrary: a)
  case Nil
  then show ?case by simp
next
  case (Cons p ps)
  from Cons.prems have "registered graph p"
    using neighbours_registered[OF assms(1)] by auto
  with Cons show ?case by auto
qed

subsection \<open>The inner loop of the search\<close>

lemma findRoute_places_Found:
  "findRoute_places to rt ns work = Found r \<Longrightarrow> r = rt @ [to] \<and> to \<in> set ns"
  by (induction ns arbitrary: work) (auto split: if_splits)

lemma findRoute_places_new:
  "findRoute_places to rt ns work = Work work' \<Longrightarrow>
   \<exists>ext. work' = work @ ext \<and> (\<forall>w \<in> set ext. at' w \<in> set ns \<and> route w = rt @ [at' w])"
proof (induction ns arbitrary: work)
  case Nil
  then show ?case by simp
next
  case (Cons p rest)
  show ?case
  proof (cases "list_ex (\<lambda>w. at' w = p) work")
    case True
    with Cons.prems have "findRoute_places to rt rest work = Work work'"
      by (simp split: if_splits)
    from Cons.IH[OF this] show ?thesis by auto
  next
    case False
    let ?item = "\<lparr>at' = p, route = rt @ [p]\<rparr>"
    from False Cons.prems have "findRoute_places to rt rest (work @ [?item]) = Work work'"
      by (simp split: if_splits)
    from Cons.IH[OF this] obtain ext where ext: "work' = (work @ [?item]) @ ext"
      "\<forall>w \<in> set ext. at' w \<in> set rest \<and> route w = rt @ [at' w]"
      by blast
    have "work' = work @ (?item # ext)" using ext(1) by simp
    moreover have "\<forall>w \<in> set (?item # ext). at' w \<in> set (p # rest) \<and> route w = rt @ [at' w]"
      using ext(2) by simp
    ultimately show ?thesis by blast
  qed
qed

lemma findRoute_places_seen:
  "findRoute_places to rt ns work = Work work' \<Longrightarrow>
   \<forall>p \<in> set ns. p \<noteq> to \<and> p \<in> at' ` set work'"
proof (induction ns arbitrary: work)
  case Nil
  then show ?case by simp
next
  case (Cons p rest)
  from Cons.prems have neq: "p \<noteq> to" by (auto split: if_splits)
  show ?case
  proof (cases "list_ex (\<lambda>w. at' w = p) work")
    case True
    with neq Cons.prems have step: "findRoute_places to rt rest work = Work work'" by simp
    from findRoute_places_extends[OF step] True have "p \<in> at' ` set work'"
      by (auto simp: list_ex_iff)
    with Cons.IH[OF step] neq show ?thesis by simp
  next
    case False
    let ?item = "\<lparr>at' = p, route = rt @ [p]\<rparr>"
    from False neq Cons.prems have step: "findRoute_places to rt rest (work @ [?item]) = Work work'"
      by simp
    from findRoute_places_extends[OF step] have "?item \<in> set work'" by auto
    then have "at' ?item \<in> at' ` set work'" by (rule imageI)
    then have "p \<in> at' ` set work'" by simp
    with Cons.IH[OF step] neq show ?thesis by simp
  qed
qed

subsection \<open>The invariant of the work list\<close>

text \<open>
  Before the outer loop looks at position \<open>i\<close> of the work list: the list starts with
  the start place and the empty route; every item's route is a walk from the start to
  the item's place; the routes are sorted by length, and none is more than one step
  longer than the route at position \<open>i\<close>; and every neighbour of an item before
  position \<open>i\<close> differs from the target and is in the list with a route at most one
  step longer than that item's.
\<close>

definition search_inv :: "graph \<Rightarrow> place \<Rightarrow> place \<Rightarrow> nat \<Rightarrow> work_item list \<Rightarrow> bool" where
  "search_inv graph from to i work \<longleftrightarrow>
     i \<le> length work \<and> work \<noteq> [] \<and> work ! 0 = \<lparr>at' = from, route = []\<rparr> \<and>
     (\<forall>w \<in> set work. walk graph from (route w) \<and> last (from # route w) = at' w) \<and>
     sorted (map (\<lambda>w. length (route w)) work) \<and>
     (i < length work \<longrightarrow> (\<forall>w \<in> set work. length (route w) \<le> Suc (length (route (work ! i))))) \<and>
     (\<forall>j < i. \<forall>p \<in> set (neighbours graph (at' (work ! j))). p \<noteq> to \<and>
        (\<exists>w \<in> set work. at' w = p \<and> length (route w) \<le> Suc (length (route (work ! j)))))"

lemma search_inv_init: "search_inv graph from to 0 [\<lparr>at' = from, route = []\<rparr>]"
  by (simp add: search_inv_def)

lemma sorted_all_equal: "\<forall>x \<in> set xs. x = (c::nat) \<Longrightarrow> sorted xs"
  by (induction xs) auto

lemma search_inv_step:
  assumes inv: "search_inv graph from to i work"
    and i: "i < length work"
    and g: "graph_get graph (at' (work ! i)) = Some ns"
    and w: "findRoute_places to (route (work ! i)) ns work = Work work'"
  shows "search_inv graph from to (i + 1) work'"
proof -
  let ?rt = "route (work ! i)"
  let ?len = "\<lambda>w. length (route w)"
  from findRoute_places_new[OF w] obtain ext where
    ext: "work' = work @ ext" and new: "\<forall>w \<in> set ext. at' w \<in> set ns \<and> route w = ?rt @ [at' w]"
    by blast
  note seen = findRoute_places_seen[OF w]
  have nbrs: "neighbours graph (at' (work ! i)) = ns"
    using g by (simp add: neighbours_def)
  have item: "work ! i \<in> set work" using i by simp
  from inv have walks: "\<forall>w \<in> set work. walk graph from (route w) \<and> last (from # route w) = at' w"
    and srt: "sorted (map ?len work)"
    and bound: "\<forall>w \<in> set work. ?len w \<le> Suc (length ?rt)"
    and processed: "\<forall>j < i. \<forall>p \<in> set (neighbours graph (at' (work ! j))). p \<noteq> to \<and>
        (\<exists>w \<in> set work. at' w = p \<and> ?len w \<le> Suc (?len (work ! j)))"
    and first: "work \<noteq> []" "work ! 0 = \<lparr>at' = from, route = []\<rparr>"
    using i by (simp_all add: search_inv_def)
  have prefix: "\<And>j. j < length work \<Longrightarrow> work' ! j = work ! j"
    by (simp add: ext nth_append)
  have c1: "i + 1 \<le> length work'" using i ext by simp
  have c2: "work' \<noteq> []" using first ext by simp
  have c3: "work' ! 0 = \<lparr>at' = from, route = []\<rparr>"
    using first prefix[of 0] by simp
  have c4: "\<forall>w \<in> set work'. walk graph from (route w) \<and> last (from # route w) = at' w"
  proof
    fix x assume "x \<in> set work'"
    then consider "x \<in> set work" | "x \<in> set ext" using ext by auto
    then show "walk graph from (route x) \<and> last (from # route x) = at' x"
    proof cases
      case 1
      with walks show ?thesis by blast
    next
      case 2
      with new have x: "at' x \<in> set ns" "route x = ?rt @ [at' x]" by auto
      from walks item have "walk graph from ?rt" "last (from # ?rt) = at' (work ! i)" by auto
      with x nbrs show ?thesis by (simp add: walk_append)
    qed
  qed
  have bound': "\<forall>w \<in> set work'. ?len w \<le> Suc (length ?rt)"
    using bound new ext by auto
  have c5: "sorted (map ?len work')"
  proof -
    have "\<forall>n \<in> set (map ?len ext). n = Suc (length ?rt)" using new by auto
    then have "sorted (map ?len ext)" by (rule sorted_all_equal)
    moreover have "\<forall>a \<in> set (map ?len work). \<forall>b \<in> set (map ?len ext). a \<le> b"
      using bound new by auto
    ultimately show ?thesis using srt by (simp add: ext sorted_append)
  qed
  have c6: "i + 1 < length work' \<longrightarrow> (\<forall>w \<in> set work'. ?len w \<le> Suc (?len (work' ! (i + 1))))"
  proof
    assume lt: "i + 1 < length work'"
    have "map ?len work' ! i \<le> map ?len work' ! (i + 1)"
      using c5 lt by (intro sorted_nth_mono) simp_all
    then have "?len (work' ! i) \<le> ?len (work' ! (i + 1))" using lt by simp
    then have "length ?rt \<le> ?len (work' ! (i + 1))" using prefix[OF i] by simp
    with bound' show "\<forall>w \<in> set work'. ?len w \<le> Suc (?len (work' ! (i + 1)))" by fastforce
  qed
  have c7: "\<forall>j < i + 1. \<forall>p \<in> set (neighbours graph (at' (work' ! j))). p \<noteq> to \<and>
        (\<exists>w \<in> set work'. at' w = p \<and> ?len w \<le> Suc (?len (work' ! j)))"
  proof (intro allI impI ballI)
    fix j p assume j: "j < i + 1" and p: "p \<in> set (neighbours graph (at' (work' ! j)))"
    show "p \<noteq> to \<and> (\<exists>w \<in> set work'. at' w = p \<and> ?len w \<le> Suc (?len (work' ! j)))"
    proof (cases "j < i")
      case True
      then have same: "work' ! j = work ! j" using prefix i by simp
      with processed True p have "p \<noteq> to \<and> (\<exists>w \<in> set work. at' w = p \<and> ?len w \<le> Suc (?len (work ! j)))"
        by simp
      then show ?thesis using same ext by auto
    next
      case False
      with j have ji: "j = i" by simp
      then have same: "work' ! j = work ! i" using prefix[OF i] by simp
      with p nbrs have "p \<in> set ns" by simp
      with seen have "p \<noteq> to" "p \<in> at' ` set work'" by auto
      then obtain x where "x \<in> set work'" "at' x = p" by auto
      with bound' \<open>p \<noteq> to\<close> show ?thesis using same by auto
    qed
  qed
  show ?thesis
    unfolding search_inv_def using c1 c2 c3 c4 c5 c6 c7 by blast
qed

lemma short_walks_in_work:
  assumes inv: "search_inv graph from to i work"
    and low: "\<forall>j < length work. length (route (work ! j)) < L \<longrightarrow> j < i"
    and ws: "walk graph from ws" "length ws \<le> L"
  shows "(ws \<noteq> [] \<longrightarrow> last ws \<noteq> to) \<and>
         (\<exists>w \<in> set work. at' w = last (from # ws) \<and> length (route w) \<le> length ws)"
  using ws
proof (induction ws rule: rev_induct)
  case Nil
  from inv have ne: "work \<noteq> []" and w0: "work ! 0 = \<lparr>at' = from, route = []\<rparr>"
    by (simp_all add: search_inv_def)
  from ne have "work ! 0 \<in> set work" by simp
  moreover from w0 have "at' (work ! 0) = from" "length (route (work ! 0)) = 0" by simp_all
  ultimately have "\<exists>w \<in> set work. at' w = from \<and> length (route w) = 0" by blast
  then show ?case by simp
next
  case (snoc v vs)
  from inv have processed: "\<And>j p. j < i \<Longrightarrow> p \<in> set (neighbours graph (at' (work ! j))) \<Longrightarrow>
      p \<noteq> to \<and> (\<exists>w \<in> set work. at' w = p \<and> length (route w) \<le> Suc (length (route (work ! j))))"
    by (simp add: search_inv_def)
  from snoc.prems have vs: "walk graph from vs" "length vs < L"
    and v: "v \<in> set (neighbours graph (last (from # vs)))"
    by (simp_all add: walk_append)
  from vs have "length vs \<le> L" by simp
  from snoc.IH[OF vs(1) this] obtain x where x: "x \<in> set work" "at' x = last (from # vs)"
    "length (route x) \<le> length vs"
    by blast
  from x(1) obtain j where j: "j < length work" "work ! j = x"
    by (auto simp: in_set_conv_nth)
  from x(3) vs(2) have "length (route (work ! j)) < L" using j(2) by simp
  with low j(1) have ji: "j < i" by blast
  from v x(2) j(2) have "v \<in> set (neighbours graph (at' (work ! j)))" by simp
  from processed[OF ji this] obtain y where
    y: "v \<noteq> to" "y \<in> set work" "at' y = v" "length (route y) \<le> Suc (length (route (work ! j)))"
    by blast
  from y(4) x(3) j(2) have "length (route y) \<le> length (vs @ [v])" by simp
  moreover have "last (from # vs @ [v]) = v" by simp
  ultimately have "\<exists>w \<in> set work. at' w = last (from # vs @ [v]) \<and> length (route w) \<le> length (vs @ [v])"
    using y(2,3) by metis
  with y(1) show ?case by simp
qed

lemma findRoute_work_correct:
  assumes "closed_graph graph" "registered graph from" "search_inv graph from to i work"
  shows "case findRoute_work graph to i work of
           Inl e \<Rightarrow> False
         | Inr None \<Rightarrow> (\<forall>r. \<not> route_to graph from to r)
         | Inr (Some r) \<Rightarrow> route_to graph from to r \<and>
                            (\<forall>r'. route_to graph from to r' \<longrightarrow> length r \<le> length r')"
  using assms
proof (induction graph to i work rule: findRoute_work.induct)
  case (1 graph to i work)
  note closed = "1.prems"(1) and reg = "1.prems"(2) and inv = "1.prems"(3)
  show ?case
  proof (cases "i < length work")
    case False
    with inv have "\<forall>j < length work. length (route (work ! j)) < L \<longrightarrow> j < i" for L
      by (simp add: search_inv_def)
    then have "\<forall>r. \<not> route_to graph from to r"
      using short_walks_in_work[OF inv _ _ order_refl] unfolding route_to_def by blast
    with False show ?thesis by (subst findRoute_work.simps) simp
  next
    case True
    let ?rt = "route (work ! i)"
    from inv True have item: "walk graph from ?rt" "last (from # ?rt) = at' (work ! i)"
      by (simp_all add: search_inv_def)
    have "registered graph (at' (work ! i))"
      using walk_registered[OF closed reg item(1)] item(2) by simp
    then obtain ns where g: "graph_get graph (at' (work ! i)) = Some ns"
      using graph_get_None_iff[of graph "at' (work ! i)"] by (cases "graph_get graph (at' (work ! i))") auto
    then have nbrs: "neighbours graph (at' (work ! i)) = ns" by (simp add: neighbours_def)
    show ?thesis
    proof (cases "findRoute_places to ?rt ns work")
      case (Found r)
      from findRoute_places_Found[OF Found] have r: "r = ?rt @ [to]" "to \<in> set ns" by auto
      have route: "route_to graph from to r"
        using r item nbrs by (simp add: route_to_def walk_append)
      have low: "\<forall>j < length work. length (route (work ! j)) < length ?rt \<longrightarrow> j < i"
      proof (intro allI impI)
        fix j assume j: "j < length work" "length (route (work ! j)) < length ?rt"
        show "j < i"
        proof (rule ccontr)
          assume "\<not> j < i"
          then have "i \<le> j" by simp
          moreover from inv have "sorted (map (\<lambda>w. length (route w)) work)"
            by (simp add: search_inv_def)
          ultimately have "map (\<lambda>w. length (route w)) work ! i \<le> map (\<lambda>w. length (route w)) work ! j"
            using j(1) by (intro sorted_nth_mono) simp_all
          with j True show False by simp
        qed
      qed
      have "length r \<le> length r'" if r': "route_to graph from to r'" for r'
      proof (rule ccontr)
        assume "\<not> length r \<le> length r'"
        with r have "length r' \<le> length ?rt" by simp
        with short_walks_in_work[OF inv low, of r'] r' show False
          by (simp add: route_to_def)
      qed
      with route Found True g show ?thesis by (subst findRoute_work.simps) simp
    next
      case (Work work')
      have "search_inv graph from to (i + 1) work'"
        by (rule search_inv_step[OF inv True g Work])
      from "1.IH"[OF True g Work closed reg this] True g Work show ?thesis
        by (subst findRoute_work.simps) simp
    qed
  qed
qed

subsection \<open>Graphs built from an edge list\<close>

text \<open>
  \<open>endpoints\<close> lists the two ends of every road description, as the loop of
  \<open>buildGraph\<close> destructures them; \<open>add_road\<close> is the body of that loop. Every graph
  that \<open>buildGraph\<close> returns is closed, and each end of a road is a neighbour of the
  other end.
\<close>

definition endpoints :: "string list \<Rightarrow> place list" where
  "endpoints edges =
     concat (map (\<lambda>r. case destructure (js_split CHR ''-'' r) of (from, to) \<Rightarrow> [from, to]) edges)"

lemma neighbours_addEdge:
  "neighbours (addEdge graph a b) p =
     (if key_of p = key_of a then neighbours graph p @ [b] else neighbours graph p)"
  by (simp add: neighbours_def graph_get_def addEdge_def update_conv' split: option.splits)

lemma registered_iff: "registered graph p \<longleftrightarrow> map_of graph (key_of p) \<noteq> None"
  by (simp add: registered_def map_of_eq_None_iff)

lemma registered_addEdge:
  "registered (addEdge graph a b) p \<longleftrightarrow> key_of p = key_of a \<or> registered graph p"
  by (simp add: registered_iff addEdge_def update_conv' split: option.splits)

definition add_road :: "graph \<Rightarrow> place \<times> place \<Rightarrow> graph" where
  "add_road graph e = (case e of (from, to) \<Rightarrow> addEdge (addEdge graph from to) to from)"

lemma closed_add_road:
  assumes "closed_graph graph"
  shows "closed_graph (add_road graph (a, b))"
  unfolding closed_graph_def
proof (intro allI ballI)
  fix p q assume "q \<in> set (neighbours (add_road graph (a, b)) p)"
  then have "q = a \<or> q = b \<or> (\<exists>p'. q \<in> set (neighbours graph p'))"
    by (auto simp: add_road_def neighbours_addEdge split: if_splits)
  then show "registered (add_road graph (a, b)) q"
    using assms by (auto simp: add_road_def registered_addEdge closed_graph_def)
qed

lemma neighbours_add_road_mono:
  "set (neighbours graph p) \<subseteq> set (neighbours (add_road graph e) p)"
  by (cases e) (auto simp: add_road_def neighbours_addEdge)

lemma neighbours_add_road_new:
  "b \<in> set (neighbours (add_road graph (a, b)) a) \<and> a \<in> set (neighbours (add_road graph (a, b)) b)"
  by (auto simp: add_road_def neighbours_addEdge)

lemma buildGraph_snoc:
  "buildGraph (edges @ [r]) = add_road (buildGraph edges) (destructure (js_split CHR ''-'' r))"
  by (simp add: buildGraph_def add_road_def)

lemma buildGraph_closed: "closed_graph (buildGraph edges)"
proof (induction edges rule: rev_induct)
  case Nil
  show ?case by (simp add: buildGraph_def closed_graph_def neighbours_def graph_get_def)
next
  case (snoc r edges)
  then show ?case
    by (cases "destructure (js_split CHR ''-'' r)") (simp add: buildGraph_snoc closed_add_road)
qed

lemma buildGraph_roads:
  assumes "r \<in> set edges" "destructure (js_split CHR ''-'' r) = (a, b)"
  shows "b \<in> set (neighbours (buildGraph edges) a) \<and> a \<in> set (neighbours (buildGraph edges) b)"
  using assms(1)
proof (induction edges rule: rev_induct)
  case Nil
  then show ?case by simp
next
  case (snoc x edges)
  show ?case
  proof (cases "x = r")
    case True
    then show ?thesis using assms(2) by (simp add: buildGraph_snoc neighbours_add_road_new)
  next
    case False
    with snoc have "b \<in> set (neighbours (buildGraph edges) a) \<and> a \<in> set (neighbours (buildGraph edges) b)"
      by simp
    then show ?thesis
      using neighbours_add_road_mono[of "buildGraph edges" _ "destructure (js_split CHR ''-'' x)"]
      by (auto simp: buildGraph_snoc)
  qed
qed

lemma neighbours_imp_registered: "q \<in> set (neighbours graph p) \<Longrightarrow> registered graph p"
  using graph_get_None_iff[of graph p] by (cases "graph_get graph p") (auto simp: neighbours_def)

lemma endpoint_round_trip:
  assumes "a \<in> set (endpoints edges)"
  shows "\<exists>b. route_to (buildGraph edges) a a [b, a]"
proof -
  from assms obtain r where r1: "r \<in> set edges"
    and mem: "a \<in> set (case destructure (js_split CHR ''-'' r) of (from, to) \<Rightarrow> [from, to])"
    by (auto simp: endpoints_def)
  obtain x y where r2: "destructure (js_split CHR ''-'' r) = (x, y)"
    by (cases "destructure (js_split CHR ''-'' r)")
  from mem r2 have a: "a = x \<or> a = y" by simp
  note r = r1 r2
  from buildGraph_roads[OF r] a show ?thesis
    by (auto simp: route_to_def)
qed

lemma endpoints_snoc:
  "endpoints (edges @ [r]) =
     endpoints edges @ [fst (destructure (js_split CHR ''-'' r)), snd (destructure (js_split CHR ''-'' r))]"
  by (simp add: endpoints_def split: prod.splits)

lemma registered_add_road:
  "registered (add_road graph e) p \<longleftrightarrow>
     key_of p = key_of (fst e) \<or> key_of p = key_of (snd e) \<or> registered graph p"
  by (cases e) (auto simp: add_road_def registered_addEdge)

lemma registered_buildGraph:
  "registered (buildGraph edges) p \<longleftrightarrow> key_of p \<in> key_of ` set (endpoints edges)"
proof (induction edges rule: rev_induct)
  case Nil
  show ?case by (simp add: buildGraph_def endpoints_def registered_def)
next
  case (snoc r edges)
  then show ?case
    by (auto simp: buildGraph_snoc endpoints_snoc registered_add_road)
qed

subsection \<open>Shortest routes\<close>

text \<open>
  \<open>to\<close> is reachable from \<open>from\<close> when some route leads there, a route is
  shortest when no route between the same places has fewer steps, and \<open>edge_count\<close>
  is the least number of steps of a route between two places. On a closed graph
  and from a registered place, \<open>findRoute\<close> never raises: it returns a shortest route
  when there is a route, and \<^verbatim>\<open>undefined\<close> when there is none.
\<close>

definition reachable :: "graph \<Rightarrow> place \<Rightarrow> place \<Rightarrow> bool" where
  "reachable graph from to \<longleftrightarrow> (\<exists>r. route_to graph from to r)"

definition shortest_route :: "graph \<Rightarrow> place \<Rightarrow> place \<Rightarrow> place list \<Rightarrow> bool" where
  "shortest_route graph from to r \<longleftrightarrow>
     route_to graph from to r \<and> (\<forall>r'. route_to graph from to r' \<longrightarrow> length r \<le> length r')"

definition edge_count :: "graph \<Rightarrow> place \<Rightarrow> place \<Rightarrow> nat" where
  "edge_count graph from to = (LEAST n. \<exists>r. route_to graph from to r \<and> length r = n)"

lemma shortest_route_edge_count:
  assumes "shortest_route graph from to r"
  shows "length r = edge_count graph from to"
proof -
  from assms have r: "route_to graph from to r"
    and least: "\<And>r'. route_to graph from to r' \<Longrightarrow> length r \<le> length r'"
    by (simp_all add: shortest_route_def)
  have "(LEAST n. \<exists>r'. route_to graph from to r' \<and> length r' = n) = length r"
  proof (rule Least_equality)
    show "\<exists>r'. route_to graph from to r' \<and> length r' = length r" using r by blast
  next
    fix n assume "\<exists>r'. route_to graph from to r' \<and> length r' = n"
    then show "length r \<le> n" using least by blast
  qed
  then show ?thesis by (simp add: edge_count_def)
qed

lemma route_to_registered: "route_to graph from to r \<Longrightarrow> registered graph from"
  by (cases r) (auto simp: route_to_def dest: neighbours_imp_registered)

lemma findRoute_cases:
  assumes "closed_graph graph" "registered graph from"
  shows "(\<not> reachable graph from to \<and> findRoute graph from to = Inr None) \<or>
         (\<exists>r. shortest_route graph from to r \<and> findRoute graph from to = Inr (Some r))"
proof -
  note c = findRoute_work_correct[OF assms search_inv_init, of to]
  show ?thesis
  proof (cases "findRoute_work graph to 0 [\<lparr>at' = from, route = []\<rparr>]")
    case (Inl e)
    with c show ?thesis by simp
  next
    case (Inr res)
    show ?thesis
    proof (cases res)
      case None
      with Inr c show ?thesis by (simp add: findRoute_def reachable_def)
    next
      case (Some r)
      with Inr c show ?thesis by (simp add: findRoute_def shortest_route_def)
    qed
  qed
qed

lemma findRoute_reachable:
  assumes "closed_graph graph" "reachable graph from to"
  shows "\<exists>r. findRoute graph from to = Inr (Some r) \<and> shortest_route graph from to r"
proof -
  from assms(2) have "registered graph from"
    by (auto simp: reachable_def dest: route_to_registered)
  from findRoute_cases[OF assms(1) this, of to] assms(2) show ?thesis by auto
qed

lemma findRoute_unregistered:
  assumes "\<not> registered graph from"
  shows "findRoute graph from to = Inl NotIterable"
proof -
  from assms have "graph_get graph from = None" by (simp add: graph_get_None_iff)
  then show ?thesis
    unfolding findRoute_def by (subst findRoute_work.simps) simp
qed

lemma shortest_round_trip_length:
  assumes "shortest_route graph a a r" "route_to graph a a [b, a]"
  shows "length r = (if a \<in> set (neighbours graph a) then 1 else 2)"
proof -
  from assms(1) have r: "route_to graph a a r"
    and least: "\<And>r'. route_to graph a a r' \<Longrightarrow> length r \<le> length r'"
    by (simp_all add: shortest_route_def)
  from r have pos: "1 \<le> length r" by (cases r) (simp_all add: route_to_def)
  from least[OF assms(2)] have le2: "length r \<le> 2" by simp
  show ?thesis
  proof (cases "a \<in> set (neighbours graph a)")
    case True
    then have "route_to graph a a [a]" by (simp add: route_to_def)
    from least[OF this] pos True show ?thesis by simp
  next
    case False
    have "length r \<noteq> 1"
    proof
      assume "length r = 1"
      then obtain x where "r = [x]" by (cases r) auto
      with r have "a \<in> set (neighbours graph a)" by (auto simp: route_to_def)
      with False show False by simp
    qed
    with pos le2 False show ?thesis by simp
  qed
qed

lemma findRoute_work_error: "findRoute_work graph to i work = Inl e \<Longrightarrow> e = NotIterable"
proof (induction graph to i work rule: findRoute_work.induct)
  case (1 graph to i work)
  from "1.prems" have lt: "i < length work"
    by (subst (asm) findRoute_work.simps) (simp split: if_splits)
  show ?case
  proof (cases "graph_get graph (at' (work ! i))")
    case None
    with "1.prems" lt show ?thesis by (subst (asm) findRoute_work.simps) simp
  next
    case (Some ns)
    show ?thesis
    proof (cases "findRoute_places to (work_item.route (work ! i)) ns work")
      case (Found r)
      with "1.prems" lt Some show ?thesis by (subst (asm) findRoute_work.simps) simp
    next
      case (Work work')
      with "1.prems" lt Some have "findRoute_work graph to (i + 1) work' = Inl e"
        by (subst (asm) findRoute_work.simps) simp
      with "1.IH"[OF lt Some Work] show ?thesis by simp
    qed
  qed
qed

lemma findRoute_error: "findRoute graph from to = Inl e \<Longrightarrow> e = NotIterable"
  unfolding findRoute_def by (rule findRoute_work_error)

subsection \<open>The claims about route finding\<close>

text \<open>
  C1. On every graph built from an edge list, whenever \<open>to\<close> can be reached from a
  different place \<open>from\<close>, \<open>findRoute\<close> returns a route from \<open>from\<close> to \<open>to\<close> that no
  other route undercuts in length: its length is the least number of edges of any
  route between the two places. On the graph of the edges A-B and B-C the route from
  A to C is B, C.
\<close>

theorem findRoute_shortest:
  "(\<forall>edges from to. from \<noteq> to \<longrightarrow> reachable (buildGraph edges) from to \<longrightarrow>
      (\<exists>r. findRoute (buildGraph edges) from to = Inr (Some r) \<and>
           shortest_route (buildGraph edges) from to r \<and>
           length r = edge_count (buildGraph edges) from to)) \<and>
   findRoute (buildGraph [''A-B'', ''B-C'']) (Str ''A'') (Str ''C'')
     = Inr (Some [Str ''B'', Str ''C''])"
proof
  show "\<forall>edges from to. from \<noteq> to \<longrightarrow> reachable (buildGraph edges) from to \<longrightarrow>
      (\<exists>r. findRoute (buildGraph edges) from to = Inr (Some r) \<and>
           shortest_route (buildGraph edges) from to r \<and>
           length r = edge_count (buildGraph edges) from to)"
  proof (intro allI impI)
    fix edges a b assume "reachable (buildGraph edges) a b"
    from findRoute_reachable[OF buildGraph_closed this] obtain r where
      r: "findRoute (buildGraph edges) a b = Inr (Some r)" "shortest_route (buildGraph edges) a b r"
      by blast
    from r shortest_route_edge_count[OF r(2)]
    show "\<exists>r. findRoute (buildGraph edges) a b = Inr (Some r) \<and>
           shortest_route (buildGraph edges) a b r \<and>
           length r = edge_count (buildGraph edges) a b"
      by blast
  qed
  show "findRoute (buildGraph [''A-B'', ''B-C'']) (Str ''A'') (Str ''C'')
     = Inr (Some [Str ''B'', Str ''C''])"
    by code_simp
qed

theorem findRoute_shortest_witness:
  "Str ''A'' \<noteq> Str ''C'' \<and>
   route_to (buildGraph [''A-B'', ''B-C'']) (Str ''A'') (Str ''C'') [Str ''B'', Str ''C''] \<and>
   (\<exists>r. findRoute (buildGraph [''A-B'', ''B-C'']) (Str ''A'') (Str ''C'') = Inr (Some r) \<and>
        route_to (buildGraph [''A-B'', ''B-C'']) (Str ''A'') (Str ''C'') r \<and> length r \<le> 2)"
proof -
  let ?g = "buildGraph [''A-B'', ''B-C'']"
  have ne: "Str ''A'' \<noteq> Str ''C''" by simp
  have rt: "route_to ?g (Str ''A'') (Str ''C'') [Str ''B'', Str ''C'']" by code_simp
  then have reach: "reachable ?g (Str ''A'') (Str ''C'')" unfolding reachable_def by (rule exI)
  from findRoute_shortest[THEN conjunct1, rule_format, OF ne reach] obtain r where
    r: "findRoute ?g (Str ''A'') (Str ''C'') = Inr (Some r)" "shortest_route ?g (Str ''A'') (Str ''C'') r"
    by (elim exE conjE)
  from r(2) have r1: "route_to ?g (Str ''A'') (Str ''C'') r" by (simp add: shortest_route_def)
  from r(2) rt have "length r \<le> length [Str ''B'', Str ''C'']"
    unfolding shortest_route_def by (elim conjE allE impE)
  then have r2: "length r \<le> 2" by simp
  from r(1) r1 r2 have "\<exists>r. findRoute ?g (Str ''A'') (Str ''C'') = Inr (Some r) \<and>
        route_to ?g (Str ''A'') (Str ''C'') r \<and> length r \<le> 2"
    by (intro exI[of _ r] conjI)
  with ne rt show ?thesis by (intro conjI)
qed

text \<open>
  C6. The claim that \<open>findRoute graph a a\<close> is the empty route fails: the search never
  compares the start with the target, it only compares neighbours, so on the graph of
  the single road A-B the route from A to A is B, A.
\<close>

theorem findRoute_same_place_counterexample:
  "Str ''A'' \<in> set (endpoints [''A-B'']) \<and>
   registered (buildGraph [''A-B'']) (Str ''A'') \<and>
   findRoute (buildGraph [''A-B'']) (Str ''A'') (Str ''A'') = Inr (Some [Str ''B'', Str ''A'']) \<and>
   findRoute (buildGraph [''A-B'']) (Str ''A'') (Str ''A'') \<noteq> Inr (Some [])"
  by code_simp

text \<open>
  C6, as the code has it. For every place \<open>a\<close> that is an end of a road of the edge list,
  \<open>findRoute\<close> from \<open>a\<close> to \<open>a\<close> returns a shortest non-empty route that leads from
  \<open>a\<close> back to \<open>a\<close>: one step when \<open>a\<close> is listed as its own neighbour, two steps
  otherwise. It is never the empty route.
\<close>

theorem findRoute_round_trip:
  assumes "a \<in> set (endpoints edges)"
  shows "\<exists>r. findRoute (buildGraph edges) a a = Inr (Some r) \<and>
             shortest_route (buildGraph edges) a a r \<and>
             length r = (if a \<in> set (neighbours (buildGraph edges) a) then 1 else 2)"
proof -
  from endpoint_round_trip[OF assms] obtain b where
    trip: "route_to (buildGraph edges) a a [b, a]" by blast
  then have "reachable (buildGraph edges) a a" unfolding reachable_def by (rule exI)
  from findRoute_reachable[OF buildGraph_closed this] obtain r where
    r: "findRoute (buildGraph edges) a a = Inr (Some r)" "shortest_route (buildGraph edges) a a r"
    by blast
  from shortest_round_trip_length[OF r(2) trip] r show ?thesis by blast
qed

theorem findRoute_round_trip_witness:
  "Str ''A'' \<in> set (endpoints [''A-B'']) \<and>
   (\<exists>r. findRoute (buildGraph [''A-B'']) (Str ''A'') (Str ''A'') = Inr (Some r) \<and> length r = 2)"
proof -
  have e: "Str ''A'' \<in> set (endpoints [''A-B''])" by code_simp
  have n: "Str ''A'' \<notin> set (neighbours (buildGraph [''A-B'']) (Str ''A''))" by code_simp
  from findRoute_round_trip[OF e] obtain r where
    "findRoute (buildGraph [''A-B'']) (Str ''A'') (Str ''A'') = Inr (Some r)"
    "length r = (if Str ''A'' \<in> set (neighbours (buildGraph [''A-B'']) (Str ''A'')) then 1 else 2)"
    by blast
  with n have "findRoute (buildGraph [''A-B'']) (Str ''A'') (Str ''A'') = Inr (Some r) \<and> length r = 2"
    by simp
  then have "\<exists>r. findRoute (buildGraph [''A-B'']) (Str ''A'') (Str ''A'') = Inr (Some r) \<and> length r = 2"
    by (rule exI)
  with e show ?thesis by (rule conjI)
qed

text \<open>
  C8. The claim that an unreachable target makes \<open>findRoute\<close> fail with an error of
  its own fails: the function has no \<^verbatim>\<open>throw\<close>. With the roads A-B and C-D, the
  search from A for C exhausts the work list and returns \<^verbatim>\<open>undefined\<close>.
\<close>

theorem findRoute_unreachable_counterexample:
  "Str ''A'' \<noteq> Str ''C'' \<and>
   \<not> reachable (buildGraph [''A-B'', ''C-D'']) (Str ''A'') (Str ''C'') \<and>
   findRoute (buildGraph [''A-B'', ''C-D'']) (Str ''A'') (Str ''C'') = Inr None"
proof -
  let ?g = "buildGraph [''A-B'', ''C-D'']"
  have res: "findRoute ?g (Str ''A'') (Str ''C'') = Inr None" by code_simp
  have reg: "registered ?g (Str ''A'')" by code_simp
  from findRoute_cases[OF buildGraph_closed reg, of "Str ''C''"] res
  have "\<not> reachable ?g (Str ''A'') (Str ''C'')" by auto
  with res show ?thesis by simp
qed

text \<open>
  C8, as the code has it. For two different places with no route from the first to the
  second: when the first place is registered in the graph, \<open>findRoute\<close> returns
  \<^verbatim>\<open>undefined\<close> and raises nothing; when it is not registered, the very first lookup
  \<^verbatim>\<open>graph[at]\<close> is \<^verbatim>\<open>undefined\<close> and iterating it raises a \<^verbatim>\<open>TypeError\<close>.
\<close>

theorem findRoute_unreachable:
  assumes "from \<noteq> to" "\<not> reachable (buildGraph edges) from to"
  shows "findRoute (buildGraph edges) from to =
           (if registered (buildGraph edges) from then Inr None else Inl NotIterable)"
proof (cases "registered (buildGraph edges) from")
  case True
  from findRoute_cases[OF buildGraph_closed True, of to] assms(2)
  have "findRoute (buildGraph edges) from to = Inr None"
    by (auto simp: shortest_route_def reachable_def)
  with True show ?thesis by simp
next
  case False
  with findRoute_unregistered[OF False, of to] show ?thesis by simp
qed

theorem findRoute_unreachable_witness:
  "Str ''A'' \<noteq> Str ''C'' \<and>
   \<not> reachable (buildGraph [''A-B'', ''C-D'']) (Str ''A'') (Str ''C'') \<and>
   registered (buildGraph [''A-B'', ''C-D'']) (Str ''A'') \<and>
   findRoute (buildGraph [''A-B'', ''C-D'']) (Str ''A'') (Str ''C'') = Inr None \<and>
   Str ''Z'' \<noteq> Str ''C'' \<and>
   \<not> reachable (buildGraph [''A-B'', ''C-D'']) (Str ''Z'') (Str ''C'') \<and>
   \<not> registered (buildGraph [''A-B'', ''C-D'']) (Str ''Z'') \<and>
   findRoute (buildGraph [''A-B'', ''C-D'']) (Str ''Z'') (Str ''C'') = Inl NotIterable"
proof -
  let ?g = "buildGraph [''A-B'', ''C-D'']"
  have ne: "Str ''A'' \<noteq> Str ''C''" by simp
  have reg: "registered ?g (Str ''A'')" by code_simp
  have "findRoute ?g (Str ''A'') (Str ''C'') \<noteq> Inr (Some r)" for r
    by code_simp
  with findRoute_cases[OF buildGraph_closed reg, of "Str ''C''"]
  have unreach: "\<not> reachable ?g (Str ''A'') (Str ''C'')" by auto
  from findRoute_unreachable[OF ne unreach] reg
  have res: "findRoute ?g (Str ''A'') (Str ''C'') = Inr None" by simp
  have ne': "Str ''Z'' \<noteq> Str ''C''" by simp
  have nreg: "\<not> registered ?g (Str ''Z'')" by code_simp
  then have unreach': "\<not> reachable ?g (Str ''Z'') (Str ''C'')"
    using route_to_registered[of ?g "Str ''Z''" "Str ''C''"] by (auto simp: reachable_def)
  from findRoute_unreachable[OF ne' unreach'] nreg
  have res': "findRoute ?g (Str ''Z'') (Str ''C'') = Inl NotIterable" by simp
  from ne unreach reg res ne' unreach' nreg res' show ?thesis by (intro conjI)
qed

section \<open>The village state\<close>

text \<open>
  A parcel is an object \<^verbatim>\<open>{place, address}\<close>, a \<^verbatim>\<open>VillageState\<close> an object with the
  robot's \<^verbatim>\<open>place\<close> and the array \<^verbatim>\<open>parcels\<close>. Both records have a field \<open>place\<close>,
  so the fields are written with their record's name where needed.

  The method \<^verbatim>\<open>move\<close> reads the global \<^verbatim>\<open>roadGraph\<close>; the graph is a parameter
  here, and the program's own method is \<open>move roadGraph\<close>. When the robot's place has
  no entry in the graph, \<^verbatim>\<open>roadGraph[this.place]\<close> is \<^verbatim>\<open>undefined\<close> and the call
  of \<^verbatim>\<open>includes\<close> on it raises.
\<close>

record parcel =
  place :: place
  address :: place

record VillageState =
  place :: place
  parcels :: "parcel list"

definition move :: "graph \<Rightarrow> VillageState \<Rightarrow> place \<Rightarrow> error + VillageState" where
  "move graph this destinations =
     (case graph_get graph (place this) of
        None \<Rightarrow> Inl (CannotReadUndefined ''includes'')
      | Some ns \<Rightarrow>
          if destinations \<notin> set ns then Inr this
          else Inr \<lparr>place = destinations,
                    parcels = filter (\<lambda>p. parcel.place p \<noteq> address p)
                      (map (\<lambda>p. if parcel.place p \<noteq> place this then p
                                else \<lparr>parcel.place = destinations, address = address p\<rparr>)
                         (parcels this))\<rparr>)"

subsection \<open>What a move does to the parcels\<close>

text \<open>
  The specification describes a legal move in two steps: relocate to the destination
  every parcel that lies at the robot's place, leaving the others untouched, then drop
  every parcel that lies at its own address. \<open>relocated\<close> and \<open>undelivered\<close> are
  these two steps in the specification's words; \<open>move_adjacent\<close> compares them with
  the \<^verbatim>\<open>map\<close> and \<^verbatim>\<open>filter\<close> of the method. \<open>carried\<close> is what one move does to one
  parcel.
\<close>

primrec relocated :: "place \<Rightarrow> place \<Rightarrow> parcel list \<Rightarrow> parcel list" where
  "relocated here dest [] = []"
| "relocated here dest (p # ps) =
     (if parcel.place p = here then p\<lparr>parcel.place := dest\<rparr> else p) # relocated here dest ps"

primrec undelivered :: "parcel list \<Rightarrow> parcel list" where
  "undelivered [] = []"
| "undelivered (p # ps) =
     (if parcel.place p = address p then undelivered ps else p # undelivered ps)"

definition carried :: "graph \<Rightarrow> VillageState \<Rightarrow> place \<Rightarrow> parcel \<Rightarrow> parcel" where
  "carried graph state dest p =
     (if dest \<in> set (neighbours graph (place state)) \<and> parcel.place p = place state
      then p\<lparr>parcel.place := dest\<rparr> else p)"

lemma relocated_map:
  "relocated here dest ps =
     map (\<lambda>p. if parcel.place p \<noteq> here then p else \<lparr>parcel.place = dest, address = address p\<rparr>) ps"
  by (induction ps) auto

lemma undelivered_filter: "undelivered ps = filter (\<lambda>p. parcel.place p \<noteq> address p) ps"
  by (induction ps) auto

lemma move_adjacent:
  assumes "destination \<in> set (neighbours graph (place state))"
  shows "move graph state destination =
           Inr \<lparr>place = destination,
                parcels = undelivered (relocated (place state) destination (parcels state))\<rparr>"
proof -
  from assms obtain ns where "graph_get graph (place state) = Some ns" "destination \<in> set ns"
    by (cases "graph_get graph (place state)") (auto simp: neighbours_def)
  then show ?thesis
    by (simp add: move_def relocated_map undelivered_filter)
qed

lemma move_not_adjacent:
  assumes "registered graph (place state)" "destination \<notin> set (neighbours graph (place state))"
  shows "move graph state destination = Inr state"
proof -
  from assms(1) obtain ns where ns: "graph_get graph (place state) = Some ns"
    using graph_get_None_iff[of graph "place state"] by (cases "graph_get graph (place state)") auto
  with assms(2) have "destination \<notin> set ns" by (simp add: neighbours_def)
  with ns show ?thesis by (simp add: move_def)
qed

lemma move_unregistered:
  assumes "\<not> registered graph (place state)"
  shows "move graph state destination = Inl (CannotReadUndefined ''includes'')"
proof -
  from assms have "graph_get graph (place state) = None" by (simp add: graph_get_None_iff)
  then show ?thesis by (simp add: move_def)
qed

lemma undelivered_none: "\<forall>p \<in> set (undelivered ps). parcel.place p \<noteq> address p"
  by (simp add: undelivered_filter)

lemma move_parcels_selection:
  assumes "registered graph (place state)"
  shows "\<exists>state' I. move graph state destination = Inr state' \<and>
           parcels state' = map (carried graph state destination) (nths (parcels state) I)"
proof (cases "destination \<in> set (neighbours graph (place state))")
  case False
  with assms have "move graph state destination = Inr state" by (rule move_not_adjacent)
  moreover from False have "carried graph state destination = (\<lambda>p. p)"
    by (simp add: carried_def fun_eq_iff)
  then have "map (carried graph state destination) (nths (parcels state) UNIV) = parcels state"
    by (simp add: nths_all)
  ultimately show ?thesis by metis
next
  case True
  let ?f = "carried graph state destination"
  let ?Q = "\<lambda>p. parcel.place p \<noteq> address p"
  have f: "(\<lambda>p. if parcel.place p \<noteq> place state then p
                 else \<lparr>parcel.place = destination, address = address p\<rparr>) = ?f"
    using True by (auto simp: carried_def fun_eq_iff)
  have "undelivered (relocated (place state) destination (parcels state))
      = filter ?Q (map ?f (parcels state))"
    by (simp add: undelivered_filter relocated_map f)
  also have "\<dots> = map ?f (filter (?Q \<circ> ?f) (parcels state))"
    by (simp add: filter_map)
  also have "\<dots> = map ?f (nths (parcels state)
      {i. i < length (parcels state) \<and> (?Q \<circ> ?f) (parcels state ! i)})"
    by (simp only: filter_eq_nths)
  finally have sel: "undelivered (relocated (place state) destination (parcels state)) =
     map ?f (nths (parcels state) {i. i < length (parcels state) \<and> (?Q \<circ> ?f) (parcels state ! i)})" .
  let ?I = "{i. i < length (parcels state) \<and> (?Q \<circ> ?f) (parcels state ! i)}"
  let ?s' = "\<lparr>place = destination,
              parcels = undelivered (relocated (place state) destination (parcels state))\<rparr>"
  have "move graph state destination = Inr ?s'" by (rule move_adjacent[OF True])
  moreover have "parcels ?s' = map ?f (nths (parcels state) ?I)" using sel by simp
  ultimately show ?thesis by blast
qed

lemma move_first_parcel:
  assumes "move graph state destination = Inr state'" "parcels state = p # rest"
  shows "parcel.place (carried graph state destination p) = address (carried graph state destination p) \<or>
         (\<exists>rest'. parcels state' = carried graph state destination p # rest')"
proof (cases "destination \<in> set (neighbours graph (place state))")
  case True
  from move_adjacent[OF True] assms show ?thesis
    by (auto simp: carried_def True)
next
  case False
  have "registered graph (place state)"
  proof (rule ccontr)
    assume "\<not> registered graph (place state)"
    from move_unregistered[OF this] assms(1) show False by simp
  qed
  from move_not_adjacent[OF this False] assms have "state' = state" by simp
  with assms(2) False show ?thesis by (simp add: carried_def)
qed

lemma subseq_addresses:
  "subseq (map address (undelivered (relocated here dest ps))) (map address ps)"
proof -
  let ?f = "\<lambda>p. if parcel.place p \<noteq> here then p else \<lparr>parcel.place = dest, address = address p\<rparr>"
  let ?Q = "\<lambda>p. parcel.place p \<noteq> address p"
  have "map address (undelivered (relocated here dest ps))
      = map address (map ?f (filter (?Q \<circ> ?f) ps))"
    by (simp add: undelivered_filter relocated_map filter_map)
  also have "\<dots> = map address (filter (?Q \<circ> ?f) ps)"
    by (simp add: comp_def)
  finally show ?thesis by (simp add: subseq_map)
qed

lemma move_error: "move graph state d = Inl e \<Longrightarrow> e = CannotReadUndefined ''includes''"
  by (auto simp: move_def split: option.splits if_splits)

subsection \<open>The move on an object store\<close>

text \<open>
  Whether a call writes to the object it is called on cannot be read off a function on
  values, so the method is modelled a second time on a store of objects: parcels,
  arrays of references and states holding a reference to their array. \<^verbatim>\<open>new\<close>
  and every object or array literal allocate at the end of the store. \<open>heap_move\<close>
  follows the method statement by statement: the callback of \<^verbatim>\<open>map\<close> returns the
  reference \<open>p\<close> itself or allocates a parcel, \<^verbatim>\<open>map\<close> and \<^verbatim>\<open>filter\<close> each allocate
  their result array, and \<^verbatim>\<open>new VillageState\<close> allocates the result. The outer \<open>None\<close>
  stands for a store that does not hold a state with an array of parcels at the
  reference given. \<open>read_state\<close> reads the value of a state out of the store, and
  \<open>heap_move_refines\<close> shows that \<open>heap_move\<close> computes what \<open>move\<close> computes while
  only ever extending the store. References are not observable in the program, so the
  order in which one call allocates its objects does not matter.
\<close>

type_synonym ref = nat

datatype object = ParcelObj parcel | ArrayObj "ref list" | StateObj place ref

type_synonym heap = "object list"

definition deref :: "heap \<Rightarrow> ref \<Rightarrow> object option" where
  "deref h r = (if r < length h then Some (h ! r) else None)"

definition new :: "heap \<Rightarrow> object \<Rightarrow> heap \<times> ref" where
  "new h ob = (h @ [ob], length h)"

fun map_parcels :: "heap \<Rightarrow> place \<Rightarrow> place \<Rightarrow> ref list \<Rightarrow> (heap \<times> ref list) option" where
  "map_parcels h here destinations [] = Some (h, [])"
| "map_parcels h here destinations (r # rs) =
     (case deref h r of
        Some (ParcelObj p) \<Rightarrow>
          if parcel.place p \<noteq> here then
            (case map_parcels h here destinations rs of
               Some (h', rs') \<Rightarrow> Some (h', r # rs')
             | None \<Rightarrow> None)
          else
            (case new h (ParcelObj \<lparr>parcel.place = destinations, address = address p\<rparr>) of
               (h1, r1) \<Rightarrow>
                 (case map_parcels h1 here destinations rs of
                    Some (h', rs') \<Rightarrow> Some (h', r1 # rs')
                  | None \<Rightarrow> None))
      | _ \<Rightarrow> None)"

fun filter_parcels :: "heap \<Rightarrow> ref list \<Rightarrow> ref list option" where
  "filter_parcels h [] = Some []"
| "filter_parcels h (r # rs) =
     (case deref h r of
        Some (ParcelObj p) \<Rightarrow>
          (case filter_parcels h rs of
             Some rs' \<Rightarrow> Some (if parcel.place p \<noteq> address p then r # rs' else rs')
           | None \<Rightarrow> None)
      | _ \<Rightarrow> None)"

definition heap_move :: "graph \<Rightarrow> heap \<Rightarrow> ref \<Rightarrow> place \<Rightarrow> (error + heap \<times> ref) option" where
  "heap_move graph h this destinations =
     (case deref h this of
        Some (StateObj here parcels_ref) \<Rightarrow>
          (case graph_get graph here of
             None \<Rightarrow> Some (Inl (CannotReadUndefined ''includes''))
           | Some ns \<Rightarrow>
               if destinations \<notin> set ns then Some (Inr (h, this))
               else
                 (case deref h parcels_ref of
                    Some (ArrayObj rs) \<Rightarrow>
                      (case map_parcels h here destinations rs of
                         Some (h1, mapped) \<Rightarrow>
                           (case new h1 (ArrayObj mapped) of
                              (h2, mapped_ref) \<Rightarrow>
                                (case filter_parcels h2 mapped of
                                   Some kept \<Rightarrow>
                                     (case new h2 (ArrayObj kept) of
                                        (h3, kept_ref) \<Rightarrow>
                                          Some (Inr (new h3 (StateObj destinations kept_ref))))
                                 | None \<Rightarrow> None))
                       | None \<Rightarrow> None)
                  | _ \<Rightarrow> None))
      | _ \<Rightarrow> None)"

fun read_parcels :: "heap \<Rightarrow> ref list \<Rightarrow> parcel list option" where
  "read_parcels h [] = Some []"
| "read_parcels h (r # rs) =
     (case deref h r of
        Some (ParcelObj p) \<Rightarrow> map_option (Cons p) (read_parcels h rs)
      | _ \<Rightarrow> None)"

definition read_state :: "heap \<Rightarrow> ref \<Rightarrow> VillageState option" where
  "read_state h r =
     (case deref h r of
        Some (StateObj here parcels_ref) \<Rightarrow>
          (case deref h parcels_ref of
             Some (ArrayObj rs) \<Rightarrow>
               map_option (\<lambda>ps. \<lparr>place = here, parcels = ps\<rparr>) (read_parcels h rs)
           | _ \<Rightarrow> None)
      | _ \<Rightarrow> None)"

lemma deref_append: "deref h r = Some ob \<Longrightarrow> deref (h @ ext) r = Some ob"
  by (auto simp: deref_def nth_append split: if_splits)

lemma deref_new: "deref (h @ [ob]) (length h) = Some ob"
  by (simp add: deref_def)

lemma read_parcels_append:
  "read_parcels h rs = Some ps \<Longrightarrow> read_parcels (h @ ext) rs = Some ps"
proof (induction rs arbitrary: ps)
  case Nil
  then show ?case by simp
next
  case (Cons r rs)
  from Cons.prems obtain p ps' where p: "deref h r = Some (ParcelObj p)"
    and ps': "read_parcels h rs = Some ps'" and ps: "ps = p # ps'"
    by (auto split: option.splits object.splits)
  from Cons.IH[OF ps'] deref_append[OF p] ps show ?case by simp
qed

lemma read_state_SomeD:
  assumes "read_state h r = Some s"
  obtains parcels_ref rs where "deref h r = Some (StateObj (place s) parcels_ref)"
    "deref h parcels_ref = Some (ArrayObj rs)" "read_parcels h rs = Some (parcels s)"
proof -
  from assms obtain here parcels_ref where 1: "deref h r = Some (StateObj here parcels_ref)"
    unfolding read_state_def by (auto split: option.splits object.splits)
  with assms obtain rs where 2: "deref h parcels_ref = Some (ArrayObj rs)"
    unfolding read_state_def by (auto split: option.splits object.splits)
  with 1 assms obtain ps where 3: "read_parcels h rs = Some ps" "s = \<lparr>place = here, parcels = ps\<rparr>"
    unfolding read_state_def by auto
  from 1 2 3 that show thesis by simp
qed

lemma read_stateI:
  assumes "deref h r = Some (StateObj here parcels_ref)"
    "deref h parcels_ref = Some (ArrayObj rs)" "read_parcels h rs = Some ps"
  shows "read_state h r = Some \<lparr>place = here, parcels = ps\<rparr>"
  using assms by (simp add: read_state_def)

lemma read_state_append:
  assumes "read_state h r = Some s"
  shows "read_state (h @ ext) r = Some s"
proof -
  from assms obtain parcels_ref rs where "deref h r = Some (StateObj (place s) parcels_ref)"
    "deref h parcels_ref = Some (ArrayObj rs)" "read_parcels h rs = Some (parcels s)"
    by (rule read_state_SomeD)
  then have "read_state (h @ ext) r = Some \<lparr>place = place s, parcels = parcels s\<rparr>"
    by (intro read_stateI deref_append read_parcels_append)
  then show ?thesis by simp
qed

lemma map_parcels_refines:
  assumes "read_parcels h rs = Some ps"
  shows "\<exists>ext rs'. map_parcels h here d rs = Some (h @ ext, rs') \<and>
           read_parcels (h @ ext) rs' =
             Some (map (\<lambda>p. if parcel.place p \<noteq> here then p
                            else \<lparr>parcel.place = d, address = address p\<rparr>) ps)"
  using assms
proof (induction rs arbitrary: h ps)
  case Nil
  then show ?case by simp
next
  case (Cons r rs)
  let ?f = "\<lambda>p. if parcel.place p \<noteq> here then p else \<lparr>parcel.place = d, address = address p\<rparr>"
  from Cons.prems obtain p ps' where p: "deref h r = Some (ParcelObj p)"
    and ps': "read_parcels h rs = Some ps'" and ps: "ps = p # ps'"
    by (auto split: option.splits object.splits)
  show ?case
  proof (cases "parcel.place p \<noteq> here")
    case True
    from Cons.IH[OF ps'] obtain ext rs' where
      step: "map_parcels h here d rs = Some (h @ ext, rs')"
      and rd: "read_parcels (h @ ext) rs' = Some (map ?f ps')"
      by blast
    have "map_parcels h here d (r # rs) = Some (h @ ext, r # rs')"
      using p True step by simp
    moreover have "read_parcels (h @ ext) (r # rs') = Some (map ?f ps)"
      using deref_append[OF p, of ext] rd ps True by simp
    ultimately show ?thesis by blast
  next
    case False
    let ?ob = "ParcelObj \<lparr>parcel.place = d, address = address p\<rparr>"
    let ?h1 = "h @ [?ob]"
    have "read_parcels ?h1 rs = Some ps'" by (rule read_parcels_append[OF ps'])
    from Cons.IH[OF this] obtain ext rs' where
      step: "map_parcels ?h1 here d rs = Some (?h1 @ ext, rs')"
      and rd: "read_parcels (?h1 @ ext) rs' = Some (map ?f ps')"
      by blast
    have "map_parcels h here d (r # rs) = Some (h @ (?ob # ext), length h # rs')"
      using p False step by (simp add: new_def)
    moreover have "deref (h @ (?ob # ext)) (length h) = Some ?ob"
      using deref_append[OF deref_new, of h ?ob ext] by simp
    then have "read_parcels (h @ (?ob # ext)) (length h # rs') = Some (map ?f ps)"
      using rd ps False by simp
    ultimately show ?thesis by blast
  qed
qed

lemma filter_parcels_refines:
  assumes "read_parcels h rs = Some ps"
  shows "\<exists>rs'. filter_parcels h rs = Some rs' \<and>
           read_parcels h rs' = Some (filter (\<lambda>p. parcel.place p \<noteq> address p) ps)"
  using assms
proof (induction rs arbitrary: ps)
  case Nil
  then show ?case by simp
next
  case (Cons r rs)
  from Cons.prems obtain p ps' where p: "deref h r = Some (ParcelObj p)"
    and ps': "read_parcels h rs = Some ps'" and ps: "ps = p # ps'"
    by (auto split: option.splits object.splits)
  from Cons.IH[OF ps'] obtain rs' where
    "filter_parcels h rs = Some rs'"
    "read_parcels h rs' = Some (filter (\<lambda>p. parcel.place p \<noteq> address p) ps')"
    by blast
  with p ps show ?case by simp
qed

lemma heap_move_refused:
  assumes "read_state h this = Some state" "registered graph (place state)"
    "destination \<notin> set (neighbours graph (place state))"
  shows "heap_move graph h this destination = Some (Inr (h, this))"
proof -
  from assms(1) obtain parcels_ref rs where st: "deref h this = Some (StateObj (place state) parcels_ref)"
    by (rule read_state_SomeD)
  from assms(2) obtain ns where ns: "graph_get graph (place state) = Some ns"
    using graph_get_None_iff[of graph "place state"] by (cases "graph_get graph (place state)") auto
  with assms(3) have "destination \<notin> set ns" by (simp add: neighbours_def)
  with st ns show ?thesis by (simp add: heap_move_def)
qed

lemma heap_move_adjacent:
  assumes "read_state h this = Some s" "d \<in> set (neighbours graph (place s))"
  shows "\<exists>ext r'. heap_move graph h this d = Some (Inr (h @ ext, r')) \<and> length h \<le> r' \<and>
           read_state (h @ ext) r' =
             Some \<lparr>place = d, parcels = undelivered (relocated (place s) d (parcels s))\<rparr>"
proof -
  from assms(1) obtain parcels_ref rs where st: "deref h this = Some (StateObj (place s) parcels_ref)"
    and arr: "deref h parcels_ref = Some (ArrayObj rs)" and ps: "read_parcels h rs = Some (parcels s)"
    by (rule read_state_SomeD)
  from assms(2) obtain ns where ns: "graph_get graph (place s) = Some ns" "d \<in> set ns"
    by (cases "graph_get graph (place s)") (auto simp: neighbours_def)
  let ?f = "\<lambda>p. if parcel.place p \<noteq> place s then p else \<lparr>parcel.place = d, address = address p\<rparr>"
  let ?Q = "\<lambda>p. parcel.place p \<noteq> address p"
  from map_parcels_refines[OF ps, of "place s" d] obtain ext1 mapped where
    m: "map_parcels h (place s) d rs = Some (h @ ext1, mapped)"
    and rm: "read_parcels (h @ ext1) mapped = Some (map ?f (parcels s))"
    by blast
  let ?h2 = "(h @ ext1) @ [ArrayObj mapped]"
  have rm2: "read_parcels ?h2 mapped = Some (map ?f (parcels s))"
    by (rule read_parcels_append[OF rm])
  from filter_parcels_refines[OF rm2] obtain kept where
    k: "filter_parcels ?h2 mapped = Some kept"
    and rk: "read_parcels ?h2 kept = Some (filter ?Q (map ?f (parcels s)))"
    by blast
  let ?h3 = "?h2 @ [ArrayObj kept]"
  let ?h4 = "?h3 @ [StateObj d (length ?h2)]"
  have hm: "heap_move graph h this d = Some (Inr (?h4, length ?h3))"
    using st ns arr m k by (simp add: heap_move_def new_def)
  have "deref ?h4 (length ?h3) = Some (StateObj d (length ?h2))" by (rule deref_new)
  moreover have "deref ?h4 (length ?h2) = Some (ArrayObj kept)"
    by (rule deref_append[OF deref_new])
  moreover have "read_parcels ?h4 kept = Some (filter ?Q (map ?f (parcels s)))"
    using read_parcels_append[OF rk, of "[ArrayObj kept, StateObj d (length ?h2)]"] by simp
  ultimately have rs4: "read_state ?h4 (length ?h3)
      = Some \<lparr>place = d, parcels = filter ?Q (map ?f (parcels s))\<rparr>"
    by (rule read_stateI)
  let ?ext = "ext1 @ [ArrayObj mapped, ArrayObj kept, StateObj d (length ?h2)]"
  have h4: "?h4 = h @ ?ext" by simp
  have res: "undelivered (relocated (place s) d (parcels s)) = filter ?Q (map ?f (parcels s))"
    by (simp add: undelivered_filter relocated_map)
  have fresh: "length h \<le> length ?h3" by simp
  have "heap_move graph h this d = Some (Inr (h @ ?ext, length ?h3)) \<and> length h \<le> length ?h3 \<and>
        read_state (h @ ?ext) (length ?h3)
          = Some \<lparr>place = d, parcels = undelivered (relocated (place s) d (parcels s))\<rparr>"
    using hm rs4 fresh unfolding h4 res by (intro conjI)
  then show ?thesis by (intro exI)
qed

lemma heap_move_refines:
  assumes "read_state h this = Some s"
  shows "case move graph s d of
           Inl e \<Rightarrow> heap_move graph h this d = Some (Inl e)
         | Inr s' \<Rightarrow> \<exists>ext r'. heap_move graph h this d = Some (Inr (h @ ext, r')) \<and>
                               read_state (h @ ext) r' = Some s'"
proof (cases "registered graph (place s)")
  case False
  from assms obtain parcels_ref where st: "deref h this = Some (StateObj (place s) parcels_ref)"
    by (rule read_state_SomeD)
  from False have "graph_get graph (place s) = None" by (simp add: graph_get_None_iff)
  with st have "heap_move graph h this d = Some (Inl (CannotReadUndefined ''includes''))"
    by (simp add: heap_move_def)
  with move_unregistered[OF False, of d] show ?thesis by simp
next
  case True
  show ?thesis
  proof (cases "d \<in> set (neighbours graph (place s))")
    case False
    have "heap_move graph h this d = Some (Inr (h @ [], this))"
      using heap_move_refused[OF assms True False] by simp
    moreover from assms have "read_state (h @ []) this = Some s" by simp
    ultimately have "\<exists>ext r'. heap_move graph h this d = Some (Inr (h @ ext, r')) \<and>
        read_state (h @ ext) r' = Some s"
      by (intro exI conjI)
    with move_not_adjacent[OF True False] show ?thesis by simp
  next
    case adj: True
    from heap_move_adjacent[OF assms adj] obtain ext r' where
      "heap_move graph h this d = Some (Inr (h @ ext, r'))"
      "read_state (h @ ext) r' =
         Some \<lparr>place = d, parcels = undelivered (relocated (place s) d (parcels s))\<rparr>"
      by blast
    then have "\<exists>ext r'. heap_move graph h this d = Some (Inr (h @ ext, r')) \<and>
        read_state (h @ ext) r' =
          Some \<lparr>place = d, parcels = undelivered (relocated (place s) d (parcels s))\<rparr>"
      by (intro exI conjI)
    with move_adjacent[OF adj] show ?thesis by simp
  qed
qed

lemma heap_move_frame:
  assumes "read_state h this = Some s" "heap_move graph h this d = Some (Inr (h', r'))"
  shows "\<exists>ext. h' = h @ ext"
proof (cases "move graph s d")
  case (Inl e)
  with heap_move_refines[OF assms(1), of graph d] assms(2) show ?thesis by simp
next
  case (Inr s')
  with heap_move_refines[OF assms(1), of graph d] obtain ext r'' where
    "heap_move graph h this d = Some (Inr (h @ ext, r''))"
    by (simp, elim exE conjE)
  with assms(2) have "h' = h @ ext" by simp
  then show ?thesis by (rule exI)
qed

subsection \<open>The claims about a move\<close>

text \<open>
  C3. When the robot's place is in the graph and the destination is not among its
  neighbours, \<open>move\<close> returns the state it was called on, with the same place and the
  same parcels. On an object store that holds this state at the reference \<open>this\<close>, the
  call returns the very reference it received and the store is the one it started
  from: no object has been written.
\<close>

theorem move_noop:
  assumes "read_state h this = Some state"
    and "registered graph (place state)"
    and "destination \<notin> set (neighbours graph (place state))"
  shows "move graph state destination = Inr state \<and>
         heap_move graph h this destination = Some (Inr (h, this))"
  using move_not_adjacent[OF assms(2,3)] heap_move_refused[OF assms] by (rule conjI)

theorem move_noop_witness:
  "read_state
     [ParcelObj \<lparr>parcel.place = Str ''Post Office'', address = Str ''Alice's House''\<rparr>,
      ArrayObj [0], StateObj (Str ''Post Office'') 1] 2
     = Some \<lparr>place = Str ''Post Office'',
              parcels = [\<lparr>parcel.place = Str ''Post Office'', address = Str ''Alice's House''\<rparr>]\<rparr> \<and>
   registered roadGraph (Str ''Post Office'') \<and>
   Str ''Cabin'' \<notin> set (neighbours roadGraph (Str ''Post Office'')) \<and>
   move roadGraph
     \<lparr>place = Str ''Post Office'',
      parcels = [\<lparr>parcel.place = Str ''Post Office'', address = Str ''Alice's House''\<rparr>]\<rparr>
     (Str ''Cabin'')
     = Inr \<lparr>place = Str ''Post Office'',
            parcels = [\<lparr>parcel.place = Str ''Post Office'', address = Str ''Alice's House''\<rparr>]\<rparr> \<and>
   heap_move roadGraph
     [ParcelObj \<lparr>parcel.place = Str ''Post Office'', address = Str ''Alice's House''\<rparr>,
      ArrayObj [0], StateObj (Str ''Post Office'') 1] 2 (Str ''Cabin'')
     = Some (Inr ([ParcelObj \<lparr>parcel.place = Str ''Post Office'', address = Str ''Alice's House''\<rparr>,
                   ArrayObj [0], StateObj (Str ''Post Office'') 1], 2))"
proof -
  let ?p = "\<lparr>parcel.place = Str ''Post Office'', address = Str ''Alice's House''\<rparr>"
  let ?h = "[ParcelObj ?p, ArrayObj [0], StateObj (Str ''Post Office'') 1]"
  let ?s = "\<lparr>place = Str ''Post Office'', parcels = [?p]\<rparr>"
  have rd: "read_state ?h 2 = Some ?s" by code_simp
  have reg: "registered roadGraph (place ?s)" by code_simp
  have far: "Str ''Cabin'' \<notin> set (neighbours roadGraph (place ?s))" by code_simp
  from move_noop[OF rd reg far] rd reg far show ?thesis by simp
qed

text \<open>
  C4. When the destination is a neighbour of the robot's place, \<open>move\<close> returns a state
  at the destination whose parcels are those of the old state, each parcel that lay at
  the robot's place relocated to the destination and the others untouched, minus every
  parcel that then lies at its own address. On the object store the result is a new
  object, and the old objects are all still there. In the village, the robot at the
  Post Office with one parcel for Alice's House delivers it by moving there.
\<close>

theorem move_relocates_and_delivers:
  "(\<forall>graph state destination.
      destination \<in> set (neighbours graph (place state)) \<longrightarrow>
      move graph state destination =
        Inr \<lparr>place = destination,
             parcels = undelivered (relocated (place state) destination (parcels state))\<rparr> \<and>
      (\<forall>h this. read_state h this = Some state \<longrightarrow>
         (\<exists>ext r'. heap_move graph h this destination = Some (Inr (h @ ext, r')) \<and>
            length h \<le> r' \<and>
            read_state (h @ ext) r' =
              Some \<lparr>place = destination,
                     parcels = undelivered (relocated (place state) destination (parcels state))\<rparr>))) \<and>
   move roadGraph
     \<lparr>place = Str ''Post Office'',
      parcels = [\<lparr>parcel.place = Str ''Post Office'', address = Str ''Alice's House''\<rparr>]\<rparr>
     (Str ''Alice's House'')
     = Inr \<lparr>place = Str ''Alice's House'', parcels = []\<rparr>"
proof (intro conjI allI impI)
  fix graph and state :: VillageState and destination
  assume adj: "destination \<in> set (neighbours graph (place state))"
  show "move graph state destination =
        Inr \<lparr>place = destination,
             parcels = undelivered (relocated (place state) destination (parcels state))\<rparr>"
    by (rule move_adjacent[OF adj])
  fix h this
  assume "read_state h this = Some state"
  then show "\<exists>ext r'. heap_move graph h this destination = Some (Inr (h @ ext, r')) \<and>
            length h \<le> r' \<and>
            read_state (h @ ext) r' =
              Some \<lparr>place = destination,
                     parcels = undelivered (relocated (place state) destination (parcels state))\<rparr>"
    using adj by (rule heap_move_adjacent)
next
  show "move roadGraph
     \<lparr>place = Str ''Post Office'',
      parcels = [\<lparr>parcel.place = Str ''Post Office'', address = Str ''Alice's House''\<rparr>]\<rparr>
     (Str ''Alice's House'')
     = Inr \<lparr>place = Str ''Alice's House'', parcels = []\<rparr>"
    by code_simp
qed

theorem move_relocates_and_delivers_witness:
  "Str ''Alice's House'' \<in> set (neighbours roadGraph (Str ''Post Office'')) \<and>
   move roadGraph
     \<lparr>place = Str ''Post Office'',
      parcels = [\<lparr>parcel.place = Str ''Post Office'', address = Str ''Alice's House''\<rparr>,
                 \<lparr>parcel.place = Str ''Cabin'', address = Str ''Post Office''\<rparr>,
                 \<lparr>parcel.place = Str ''Post Office'', address = Str ''Farm''\<rparr>]\<rparr>
     (Str ''Alice's House'')
     = Inr \<lparr>place = Str ''Alice's House'',
            parcels = [\<lparr>parcel.place = Str ''Cabin'', address = Str ''Post Office''\<rparr>,
                       \<lparr>parcel.place = Str ''Alice's House'', address = Str ''Farm''\<rparr>]\<rparr>"
proof -
  let ?s = "\<lparr>place = Str ''Post Office'',
      parcels = [\<lparr>parcel.place = Str ''Post Office'', address = Str ''Alice's House''\<rparr>,
                 \<lparr>parcel.place = Str ''Cabin'', address = Str ''Post Office''\<rparr>,
                 \<lparr>parcel.place = Str ''Post Office'', address = Str ''Farm''\<rparr>]\<rparr>"
  have adj: "Str ''Alice's House'' \<in> set (neighbours roadGraph (place ?s))" by code_simp
  note general = move_relocates_and_delivers[THEN conjunct1, rule_format]
  from general[OF adj, THEN conjunct1] adj show ?thesis by simp
qed

text \<open>
  C5. A state of the data model has no parcel at its own address (the Parcel
  invariant; \<^verbatim>\<open>VillageState.random\<close> draws the place of a parcel again until it differs
  from the address). On such a state, for every destination, no parcel of the state
  that \<open>move\<close> returns lies at its own address, whether the move is legal or refused;
  and \<open>move\<close> does return a state when the robot's place is in the graph. For a
  destination that is a neighbour of the robot's place the same holds whatever the
  parcels of the state are, because the method's \<^verbatim>\<open>filter\<close> removes the delivered
  ones.
\<close>

theorem move_delivery_invariant:
  assumes "destination \<in> set (neighbours graph (place state)) \<or>
           (\<forall>p \<in> set (parcels state). parcel.place p \<noteq> address p)"
  shows "(registered graph (place state) \<longrightarrow>
            (\<exists>state'. move graph state destination = Inr state' \<and>
               (\<forall>p \<in> set (parcels state'). parcel.place p \<noteq> address p))) \<and>
         (\<forall>state'. move graph state destination = Inr state' \<longrightarrow>
            (\<forall>p \<in> set (parcels state'). parcel.place p \<noteq> address p))"
proof -
  have returned: "\<forall>p \<in> set (parcels state'). parcel.place p \<noteq> address p"
    if mv: "move graph state destination = Inr state'" for state'
  proof (cases "destination \<in> set (neighbours graph (place state))")
    case True
    from move_adjacent[OF True] mv
    have "parcels state' = undelivered (relocated (place state) destination (parcels state))"
      by simp
    with undelivered_none show ?thesis by simp
  next
    case False
    have reg: "registered graph (place state)"
    proof (rule ccontr)
      assume "\<not> registered graph (place state)"
      from move_unregistered[OF this] mv show False by simp
    qed
    from move_not_adjacent[OF reg False] mv have "state' = state" by simp
    moreover from False assms have "\<forall>p \<in> set (parcels state). parcel.place p \<noteq> address p"
      by simp
    ultimately show ?thesis by simp
  qed
  have returns: "\<exists>state'. move graph state destination = Inr state'"
    if reg: "registered graph (place state)"
  proof (cases "destination \<in> set (neighbours graph (place state))")
    case True
    from move_adjacent[OF True] show ?thesis by (rule exI)
  next
    case False
    from move_not_adjacent[OF reg False] show ?thesis by (rule exI)
  qed
  show ?thesis
  proof (intro conjI impI allI)
    assume "registered graph (place state)"
    from returns[OF this] obtain state' where mv: "move graph state destination = Inr state'"
      by (rule exE)
    with returned[OF mv]
    show "\<exists>state'. move graph state destination = Inr state' \<and>
               (\<forall>p \<in> set (parcels state'). parcel.place p \<noteq> address p)"
      by (intro exI[of _ state'] conjI)
  next
    fix state' assume "move graph state destination = Inr state'"
    then show "\<forall>p \<in> set (parcels state'). parcel.place p \<noteq> address p" by (rule returned)
  qed
qed

theorem move_delivery_invariant_witness:
  "registered roadGraph (Str ''Post Office'') \<and>
   Str ''Cabin'' \<notin> set (neighbours roadGraph (Str ''Post Office'')) \<and>
   list_all (\<lambda>p. parcel.place p \<noteq> address p)
     [\<lparr>parcel.place = Str ''Cabin'', address = Str ''Post Office''\<rparr>,
      \<lparr>parcel.place = Str ''Post Office'', address = Str ''Alice's House''\<rparr>] \<and>
   (\<exists>state'. move roadGraph
        \<lparr>place = Str ''Post Office'',
         parcels = [\<lparr>parcel.place = Str ''Cabin'', address = Str ''Post Office''\<rparr>,
                    \<lparr>parcel.place = Str ''Post Office'', address = Str ''Alice's House''\<rparr>]\<rparr>
        (Str ''Cabin'') = Inr state' \<and>
      (\<forall>p \<in> set (parcels state'). parcel.place p \<noteq> address p)) \<and>
   Str ''Alice's House'' \<in> set (neighbours roadGraph (Str ''Post Office'')) \<and>
   (\<exists>state'. move roadGraph
        \<lparr>place = Str ''Post Office'',
         parcels = [\<lparr>parcel.place = Str ''Cabin'', address = Str ''Post Office''\<rparr>,
                    \<lparr>parcel.place = Str ''Post Office'', address = Str ''Alice's House''\<rparr>]\<rparr>
        (Str ''Alice's House'') = Inr state' \<and>
      (\<forall>p \<in> set (parcels state'). parcel.place p \<noteq> address p))"
proof -
  let ?s = "\<lparr>place = Str ''Post Office'',
         parcels = [\<lparr>parcel.place = Str ''Cabin'', address = Str ''Post Office''\<rparr>,
                    \<lparr>parcel.place = Str ''Post Office'', address = Str ''Alice's House''\<rparr>]\<rparr>"
  have reg: "registered roadGraph (place ?s)" by code_simp
  have far: "Str ''Cabin'' \<notin> set (neighbours roadGraph (Str ''Post Office''))" by code_simp
  have wf: "\<forall>p \<in> set (parcels ?s). parcel.place p \<noteq> address p" by simp
  then have "Str ''Cabin'' \<in> set (neighbours roadGraph (place ?s)) \<or>
         (\<forall>p \<in> set (parcels ?s). parcel.place p \<noteq> address p)" by (rule disjI2)
  note refused = move_delivery_invariant[OF this, THEN conjunct1, rule_format, OF reg]
  have adj: "Str ''Alice's House'' \<in> set (neighbours roadGraph (place ?s))" by code_simp
  then have "Str ''Alice's House'' \<in> set (neighbours roadGraph (place ?s)) \<or>
         (\<forall>p \<in> set (parcels ?s). parcel.place p \<noteq> address p)" by (rule disjI1)
  note legal = move_delivery_invariant[OF this, THEN conjunct1, rule_format, OF reg]
  from reg far wf refused adj legal show ?thesis by simp
qed

text \<open>
  C7. The claim that asking the graph for the neighbours of an unregistered place fails
  with an error of its own fails on two counts. The lookup \<^verbatim>\<open>graph[p]\<close> does not fail:
  it is \<^verbatim>\<open>undefined\<close>. What fails is the first use of that value, with the language's
  \<^verbatim>\<open>TypeError\<close>, and not the same one everywhere: with the single road A-B and the
  place Z, \<open>move\<close> raises on reading \<^verbatim>\<open>includes\<close> of \<^verbatim>\<open>undefined\<close>, and \<open>findRoute\<close>
  raises because \<^verbatim>\<open>undefined\<close> is not iterable.
\<close>

theorem unknown_place_counterexample:
  "key_of (Str ''Z'') \<notin> key_of ` set (endpoints [''A-B'']) \<and>
   graph_get (buildGraph [''A-B'']) (Str ''Z'') = None \<and>
   move (buildGraph [''A-B'']) \<lparr>place = Str ''Z'', parcels = []\<rparr> (Str ''A'')
     = Inl (CannotReadUndefined ''includes'') \<and>
   findRoute (buildGraph [''A-B'']) (Str ''Z'') (Str ''A'') = Inl NotIterable \<and>
   CannotReadUndefined ''includes'' \<noteq> NotIterable"
  by code_simp

text \<open>
  C7, as the code has it. For a place that the edge list never registered (its key is
  the key of no end of any road), the lookup \<^verbatim>\<open>graph[p]\<close> is \<^verbatim>\<open>undefined\<close> and raises
  nothing; each use of it fails at once with a \<^verbatim>\<open>TypeError\<close> of the language: \<open>move\<close>
  from such a place raises when it calls \<^verbatim>\<open>includes\<close> on the missing entry, and
  \<open>findRoute\<close> from such a place raises when it iterates the missing entry.
\<close>

theorem unknown_place_fails:
  assumes "key_of p \<notin> key_of ` set (endpoints edges)"
  shows "graph_get (buildGraph edges) p = None \<and>
         (\<forall>ps destination.
            move (buildGraph edges) \<lparr>place = p, parcels = ps\<rparr> destination
              = Inl (CannotReadUndefined ''includes'')) \<and>
         (\<forall>to. findRoute (buildGraph edges) p to = Inl NotIterable)"
proof -
  from assms have nreg: "\<not> registered (buildGraph edges) p"
    by (simp add: registered_buildGraph)
  then have "graph_get (buildGraph edges) p = None" by (simp add: graph_get_None_iff)
  with nreg show ?thesis
    using move_unregistered[of "buildGraph edges"] findRoute_unregistered[of "buildGraph edges" p]
    by simp
qed

theorem unknown_place_fails_witness:
  "key_of (Str ''Cabin'') \<notin> key_of ` set (endpoints [''Shop-Town Hall'', ''Marketplace-Shop'']) \<and>
   graph_get (buildGraph [''Shop-Town Hall'', ''Marketplace-Shop'']) (Str ''Cabin'') = None \<and>
   move (buildGraph [''Shop-Town Hall'', ''Marketplace-Shop''])
     \<lparr>place = Str ''Cabin'', parcels = []\<rparr> (Str ''Shop'')
     = Inl (CannotReadUndefined ''includes'') \<and>
   findRoute (buildGraph [''Shop-Town Hall'', ''Marketplace-Shop'']) (Str ''Cabin'') (Str ''Shop'')
     = Inl NotIterable"
proof -
  have z: "key_of (Str ''Cabin'')
      \<notin> key_of ` set (endpoints [''Shop-Town Hall'', ''Marketplace-Shop''])" by code_simp
  from unknown_place_fails[OF z] z show ?thesis by blast
qed

text \<open>
  C9. A move never reorders parcels. With the robot's place in the graph, the parcels
  of the result are a selection of the old parcels in their old order, each one as it
  is carried by the move (its address kept); in particular the addresses of the result
  are a subsequence of the old addresses, and the first parcel of the old state is
  either delivered by the move or still the first parcel.
\<close>

theorem move_keeps_order:
  assumes "registered graph (place state)"
  shows "\<exists>state' I. move graph state destination = Inr state' \<and>
           parcels state' = map (carried graph state destination) (nths (parcels state) I) \<and>
           subseq (map address (parcels state')) (map address (parcels state)) \<and>
           (\<forall>p rest. parcels state = p # rest \<longrightarrow>
              parcel.place (carried graph state destination p)
                = address (carried graph state destination p) \<or>
              (\<exists>rest'. parcels state' = carried graph state destination p # rest'))"
proof -
  from move_parcels_selection[OF assms, of destination] obtain state' I where
    mv: "move graph state destination = Inr state'"
    and sel: "parcels state' = map (carried graph state destination) (nths (parcels state) I)"
    by blast
  have sub: "subseq (map address (parcels state')) (map address (parcels state))"
  proof (cases "destination \<in> set (neighbours graph (place state))")
    case True
    from move_adjacent[OF True] mv
    have "parcels state' = undelivered (relocated (place state) destination (parcels state))"
      by simp
    then show ?thesis by (simp add: subseq_addresses)
  next
    case False
    from move_not_adjacent[OF assms False] mv have "state' = state" by simp
    then show ?thesis by simp
  qed
  have first: "\<forall>p rest. parcels state = p # rest \<longrightarrow>
              parcel.place (carried graph state destination p)
                = address (carried graph state destination p) \<or>
              (\<exists>rest'. parcels state' = carried graph state destination p # rest')"
    using move_first_parcel[OF mv] by blast
  from mv sel sub first show ?thesis by blast
qed

theorem move_keeps_order_witness:
  "registered roadGraph (Str ''Post Office'') \<and>
   (\<exists>state'. move roadGraph
        \<lparr>place = Str ''Post Office'',
         parcels = [\<lparr>parcel.place = Str ''Cabin'', address = Str ''Post Office''\<rparr>,
                    \<lparr>parcel.place = Str ''Post Office'', address = Str ''Alice's House''\<rparr>,
                    \<lparr>parcel.place = Str ''Post Office'', address = Str ''Farm''\<rparr>]\<rparr>
        (Str ''Alice's House'') = Inr state' \<and>
      subseq (map address (parcels state'))
        [Str ''Post Office'', Str ''Alice's House'', Str ''Farm''])"
proof -
  let ?s = "\<lparr>place = Str ''Post Office'',
         parcels = [\<lparr>parcel.place = Str ''Cabin'', address = Str ''Post Office''\<rparr>,
                    \<lparr>parcel.place = Str ''Post Office'', address = Str ''Alice's House''\<rparr>,
                    \<lparr>parcel.place = Str ''Post Office'', address = Str ''Farm''\<rparr>]\<rparr>"
  have reg: "registered roadGraph (place ?s)" by code_simp
  from move_keeps_order[OF reg, of "Str ''Alice's House''"] obtain state' where
    "move roadGraph ?s (Str ''Alice's House'') = Inr state'"
    "subseq (map address (parcels state')) (map address (parcels ?s))"
    by blast
  then have "\<exists>state'. move roadGraph ?s (Str ''Alice's House'') = Inr state' \<and>
      subseq (map address (parcels state'))
        [Str ''Post Office'', Str ''Alice's House'', Str ''Farm'']"
    by (intro exI[of _ state']) simp
  with reg show ?thesis by simp
qed

section \<open>The robots\<close>

text \<open>
  A robot is a function of the state and its memory that returns an object
  \<^verbatim>\<open>{direction, memory}\<close>. Both route-finding robots end with
  \<^verbatim>\<open>{ direction: route[0], memory: route.slice(1) }\<close>, which is \<open>follow\<close>. They read
  the global \<^verbatim>\<open>roadGraph\<close>, which is a parameter here.

  \<open>goalOrientedRobot\<close> reads \<^verbatim>\<open>parcels[0]\<close> and then its \<^verbatim>\<open>place\<close>; on an empty array
  the parcel is \<^verbatim>\<open>undefined\<close> and the read raises. \<open>lazyRobot\<close> maps every parcel to a
  candidate \<^verbatim>\<open>{route, pickUp}\<close> (\<open>candidates\<close>, which stops at the first call of
  \<open>findRoute\<close> that raises), and folds the candidates with \<^verbatim>\<open>reduce\<close> and the callback
  \<^verbatim>\<open>(a, b) => (score(a) > score(b) ? a : b)\<close>, which is \<open>better\<close>. A route that is
  \<^verbatim>\<open>undefined\<close> makes \<open>score\<close> raise when it reads \<^verbatim>\<open>route.length\<close>, and makes the
  final \<^verbatim>\<open>route[0]\<close> raise. The scores are halves of integers, which the program's
  floating-point numbers represent exactly; they are real numbers here.

  \<open>countSteps\<close> is the loop \<^verbatim>\<open>for (let steps = 0; ; steps++)\<close>. It has no bound of its
  own, so the model takes fuel: \<open>None\<close> means that the fuel ran out before the loop
  returned.
\<close>

record 'm action =
  direction :: place
  memory :: 'm

definition follow :: "place list \<Rightarrow> (place list) action" where
  "follow rt = \<lparr>direction = (case rt of [] \<Rightarrow> Undefined | p # _ \<Rightarrow> p), memory = drop 1 rt\<rparr>"

definition goalOrientedRobot :: "graph \<Rightarrow> VillageState \<Rightarrow> place list \<Rightarrow> error + (place list) action" where
  "goalOrientedRobot graph state rt =
     (if length rt = 0 then
        (case parcels state of
           [] \<Rightarrow> Inl (CannotReadUndefined ''place'')
         | p # _ \<Rightarrow>
            (case (if parcel.place p \<noteq> place state
                   then findRoute graph (place state) (parcel.place p)
                   else findRoute graph (place state) (address p)) of
               Inl e \<Rightarrow> Inl e
             | Inr None \<Rightarrow> Inl (CannotReadUndefined ''0'')
             | Inr (Some rt') \<Rightarrow> Inr (follow rt')))
      else Inr (follow rt))"

record candidate =
  route :: "place list option"
  pickUp :: bool

fun candidates :: "graph \<Rightarrow> place \<Rightarrow> parcel list \<Rightarrow> error + candidate list" where
  "candidates graph here [] = Inr []"
| "candidates graph here (p # rest) =
     (case (if parcel.place p \<noteq> here
            then (case findRoute graph here (parcel.place p) of
                    Inl e \<Rightarrow> Inl e | Inr r \<Rightarrow> Inr \<lparr>route = r, pickUp = True\<rparr>)
            else (case findRoute graph here (address p) of
                    Inl e \<Rightarrow> Inl e | Inr r \<Rightarrow> Inr \<lparr>route = r, pickUp = False\<rparr>)) of
        Inl e \<Rightarrow> Inl e
      | Inr c \<Rightarrow> (case candidates graph here rest of Inl e \<Rightarrow> Inl e | Inr cs \<Rightarrow> Inr (c # cs)))"

definition score :: "candidate \<Rightarrow> error + real" where
  "score c = (case route c of
                None \<Rightarrow> Inl (CannotReadUndefined ''length'')
              | Some rt \<Rightarrow> Inr ((if pickUp c then 0.5 else 0) - real (length rt)))"

definition better :: "candidate \<Rightarrow> candidate \<Rightarrow> error + candidate" where
  "better a b =
     (case score a of Inl e \<Rightarrow> Inl e | Inr sa \<Rightarrow>
        (case score b of Inl e \<Rightarrow> Inl e | Inr sb \<Rightarrow> Inr (if sa > sb then a else b)))"

fun reduce_from :: "('a \<Rightarrow> 'a \<Rightarrow> error + 'a) \<Rightarrow> 'a \<Rightarrow> 'a list \<Rightarrow> error + 'a" where
  "reduce_from f acc [] = Inr acc"
| "reduce_from f acc (b # bs) = (case f acc b of Inl e \<Rightarrow> Inl e | Inr acc' \<Rightarrow> reduce_from f acc' bs)"

fun reduce :: "('a \<Rightarrow> 'a \<Rightarrow> error + 'a) \<Rightarrow> 'a list \<Rightarrow> error + 'a" where
  "reduce f [] = Inl ReduceEmpty"
| "reduce f (a # bs) = reduce_from f a bs"

definition lazyRobot :: "graph \<Rightarrow> VillageState \<Rightarrow> place list \<Rightarrow> error + (place list) action" where
  "lazyRobot graph state rt =
     (if length rt = 0 then
        (case candidates graph (place state) (parcels state) of
           Inl e \<Rightarrow> Inl e
         | Inr routes \<Rightarrow>
            (case reduce better routes of
               Inl e \<Rightarrow> Inl e
             | Inr best \<Rightarrow>
                (case route best of
                   None \<Rightarrow> Inl (CannotReadUndefined ''0'')
                 | Some rt' \<Rightarrow> Inr (follow rt'))))
      else Inr (follow rt))"

fun countSteps_loop :: "nat \<Rightarrow> graph \<Rightarrow> (VillageState \<Rightarrow> 'm \<Rightarrow> error + 'm action) \<Rightarrow> nat \<Rightarrow>
    VillageState \<Rightarrow> 'm \<Rightarrow> (error + nat) option" where
  "countSteps_loop 0 graph robot steps state mem = None"
| "countSteps_loop (Suc fuel) graph robot steps state mem =
     (if length (parcels state) = 0 then Some (Inr steps)
      else (case robot state mem of
              Inl e \<Rightarrow> Some (Inl e)
            | Inr act \<Rightarrow>
               (case move graph state (direction act) of
                  Inl e \<Rightarrow> Some (Inl e)
                | Inr state' \<Rightarrow> countSteps_loop fuel graph robot (steps + 1) state' (memory act))))"

definition countSteps :: "nat \<Rightarrow> graph \<Rightarrow> (VillageState \<Rightarrow> 'm \<Rightarrow> error + 'm action) \<Rightarrow>
    VillageState \<Rightarrow> 'm \<Rightarrow> (error + nat) option" where
  "countSteps fuel graph robot state mem = countSteps_loop fuel graph robot 0 state mem"

subsection \<open>Choosing among the candidate routes\<close>

text \<open>
  In the specification's words: the leg of a parcel is a pick-up at the parcel's place
  when the parcel is not at the robot's place, and a delivery at its address otherwise;
  the score of a candidate is a half for a pick-up, minus the length of its route.
  \<open>candidate_of\<close> says that a candidate is the one the robot builds for a parcel.
\<close>

definition leg :: "VillageState \<Rightarrow> parcel \<Rightarrow> place \<times> bool" where
  "leg state p =
     (if parcel.place p \<noteq> place state then (parcel.place p, True) else (address p, False))"

definition score_of :: "candidate \<Rightarrow> real" where
  "score_of c =
     (if pickUp c then 0.5 else 0) - real (case candidate.route c of None \<Rightarrow> 0 | Some rt \<Rightarrow> length rt)"

definition candidate_of :: "graph \<Rightarrow> VillageState \<Rightarrow> parcel \<Rightarrow> candidate \<Rightarrow> bool" where
  "candidate_of graph state p c \<longleftrightarrow>
     pickUp c = snd (leg state p) \<and>
     findRoute graph (place state) (fst (leg state p)) = Inr (candidate.route c)"

lemma score_defined: "candidate.route c = Some rt \<Longrightarrow> score c = Inr (score_of c)"
  by (simp add: score_def score_of_def)

lemma reduce_from_snoc:
  "reduce_from f acc (bs @ [b]) =
     (case reduce_from f acc bs of Inl e \<Rightarrow> Inl e | Inr x \<Rightarrow> f x b)"
  by (induction bs arbitrary: acc) (auto split: sum.splits)

lemma better_defined:
  assumes "score a = Inr (score_of a)" "score b = Inr (score_of b)"
  shows "better a b = Inr (if score_of a > score_of b then a else b)"
  using assms by (simp add: better_def)

lemma reduce_from_last_best:
  assumes "\<forall>c \<in> set (a # bs). score c = Inr (score_of c)"
  shows "\<exists>pre best post. a # bs = pre @ best # post \<and> reduce_from better a bs = Inr best \<and>
           (\<forall>c \<in> set pre. score_of c \<le> score_of best) \<and>
           (\<forall>c \<in> set post. score_of c < score_of best)"
  using assms
proof (induction bs rule: rev_induct)
  case Nil
  have "[a] = [] @ a # []" by simp
  then show ?case by fastforce
next
  case (snoc b bs)
  from snoc.prems have "\<forall>c \<in> set (a # bs). score c = Inr (score_of c)" by simp
  from snoc.IH[OF this] obtain pre best post where
    split: "a # bs = pre @ best # post" and red: "reduce_from better a bs = Inr best"
    and before: "\<forall>c \<in> set pre. score_of c \<le> score_of best"
    and after: "\<forall>c \<in> set post. score_of c < score_of best"
    by blast
  have "best \<in> set (a # bs)" unfolding split by simp
  then have "best \<in> set (a # bs @ [b])" by auto
  with snoc.prems have sb: "score best = Inr (score_of best)" by blast
  have "b \<in> set (a # bs @ [b])" by simp
  with snoc.prems have sc: "score b = Inr (score_of b)" by blast
  have step: "reduce_from better a (bs @ [b]) = Inr (if score_of best > score_of b then best else b)"
    by (simp add: reduce_from_snoc red better_defined[OF sb sc])
  show ?case
  proof (cases "score_of best > score_of b")
    case True
    have "a # bs @ [b] = pre @ best # (post @ [b])" using split by simp
    moreover have "reduce_from better a (bs @ [b]) = Inr best" using step True by simp
    moreover have "\<forall>c \<in> set (post @ [b]). score_of c < score_of best"
      using after True by simp
    ultimately show ?thesis using before by blast
  next
    case False
    have "a # bs @ [b] = (pre @ best # post) @ b # []" using split by simp
    moreover have "reduce_from better a (bs @ [b]) = Inr b" using step False by simp
    moreover have "\<forall>c \<in> set (pre @ best # post). score_of c \<le> score_of b"
      using before after False by fastforce
    moreover have "\<forall>c \<in> set []. score_of c < score_of b" by simp
    ultimately show ?thesis by blast
  qed
qed

lemma candidates_legs:
  "candidates graph (place state) ps = Inr cs \<Longrightarrow> list_all2 (candidate_of graph state) ps cs"
proof (induction ps arbitrary: cs)
  case Nil
  then show ?case by simp
next
  case (Cons p ps)
  show ?case
  proof (cases "parcel.place p \<noteq> place state")
    case True
    with Cons.prems obtain r cs' where "findRoute graph (place state) (parcel.place p) = Inr r"
      "candidates graph (place state) ps = Inr cs'" "cs = \<lparr>candidate.route = r, pickUp = True\<rparr> # cs'"
      by (auto split: sum.splits)
    with Cons.IH[of cs'] True show ?thesis by (simp add: candidate_of_def leg_def)
  next
    case False
    with Cons.prems obtain r cs' where "findRoute graph (place state) (address p) = Inr r"
      "candidates graph (place state) ps = Inr cs'" "cs = \<lparr>candidate.route = r, pickUp = False\<rparr> # cs'"
      by (auto split: sum.splits)
    with Cons.IH[of cs'] False show ?thesis by (simp add: candidate_of_def leg_def)
  qed
qed

lemma candidates_defined:
  assumes "\<forall>p \<in> set ps. \<exists>rt. findRoute graph (place state) (fst (leg state p)) = Inr (Some rt)"
  shows "\<exists>cs. candidates graph (place state) ps = Inr cs \<and> (\<forall>c \<in> set cs. candidate.route c \<noteq> None)"
  using assms
proof (induction ps)
  case Nil
  then show ?case by simp
next
  case (Cons p ps)
  then obtain cs where cs: "candidates graph (place state) ps = Inr cs"
    "\<forall>c \<in> set cs. candidate.route c \<noteq> None"
    by auto
  from Cons.prems obtain rt where
    rt: "findRoute graph (place state) (fst (leg state p)) = Inr (Some rt)"
    by auto
  show ?case
  proof (cases "parcel.place p \<noteq> place state")
    case True
    with rt cs have "candidates graph (place state) (p # ps)
        = Inr (\<lparr>candidate.route = Some rt, pickUp = True\<rparr> # cs)"
      by (simp add: leg_def)
    with cs(2) show ?thesis by simp
  next
    case False
    with rt cs have "candidates graph (place state) (p # ps)
        = Inr (\<lparr>candidate.route = Some rt, pickUp = False\<rparr> # cs)"
      by (simp add: leg_def)
    with cs(2) show ?thesis by simp
  qed
qed

lemma lazyRobot_last_best:
  assumes "parcels state \<noteq> []"
    and "\<forall>p \<in> set (parcels state). \<exists>rt. findRoute graph (place state) (fst (leg state p)) = Inr (Some rt)"
  shows "\<exists>cs pre best post rt.
           candidates graph (place state) (parcels state) = Inr cs \<and>
           list_all2 (candidate_of graph state) (parcels state) cs \<and>
           (\<forall>c \<in> set cs. score c = Inr (score_of c)) \<and>
           cs = pre @ best # post \<and>
           (\<forall>c \<in> set pre. score_of c \<le> score_of best) \<and>
           (\<forall>c \<in> set post. score_of c < score_of best) \<and>
           candidate.route best = Some rt \<and>
           lazyRobot graph state [] = Inr (follow rt)"
proof -
  from candidates_defined[OF assms(2)] obtain cs where
    cs: "candidates graph (place state) (parcels state) = Inr cs"
    and routes: "\<forall>c \<in> set cs. candidate.route c \<noteq> None"
    by blast
  note legs = candidates_legs[OF cs]
  from routes have scores: "\<forall>c \<in> set cs. score c = Inr (score_of c)"
    by (auto intro: score_defined)
  from legs assms(1) obtain a bs where ab: "cs = a # bs"
    by (cases cs) (auto dest: list_all2_lengthD)
  from scores ab have "\<forall>c \<in> set (a # bs). score c = Inr (score_of c)" by simp
  from reduce_from_last_best[OF this] obtain pre best post where
    split': "a # bs = pre @ best # post" and red': "reduce_from better a bs = Inr best"
    and before: "\<forall>c \<in> set pre. score_of c \<le> score_of best"
    and after: "\<forall>c \<in> set post. score_of c < score_of best"
    by blast
  from split' ab have split: "cs = pre @ best # post" by simp
  from red' ab have red: "reduce better cs = Inr best" by simp
  have "best \<in> set cs" unfolding split by simp
  with routes obtain rt where rt: "candidate.route best = Some rt" by auto
  have "lazyRobot graph state [] = Inr (follow rt)"
    by (simp add: lazyRobot_def cs red rt)
  with cs legs scores split before after rt show ?thesis by blast
qed

subsection \<open>Where the robots can fail\<close>

text \<open>
  Each function can raise only its own kind of error: \<open>findRoute\<close> the iteration of
  a missing entry, the fold of the candidates the read of \<^verbatim>\<open>route.length\<close>, \<open>move\<close>
  the call of \<^verbatim>\<open>includes\<close>. This separates the two failures on an empty parcel array
  from every failure that can happen when there is a parcel.
\<close>

lemma candidates_error: "candidates graph here ps = Inl e \<Longrightarrow> e = NotIterable"
proof (induction ps)
  case Nil
  then show ?case by simp
next
  case (Cons p ps)
  then show ?case
    by (auto split: if_splits sum.splits dest: findRoute_error)
qed

lemma candidates_length: "candidates graph here ps = Inr cs \<Longrightarrow> length cs = length ps"
  by (induction ps arbitrary: cs) (auto split: if_splits sum.splits)

lemma better_error: "better a b = Inl e \<Longrightarrow> e = CannotReadUndefined ''length''"
  by (auto simp: better_def score_def split: sum.splits option.splits)

lemma reduce_from_error:
  "reduce_from better a bs = Inl e \<Longrightarrow> e = CannotReadUndefined ''length''"
  by (induction bs arbitrary: a) (auto split: sum.splits dest: better_error)

lemma lazyRobot_empty: "parcels state = [] \<Longrightarrow> lazyRobot graph state [] = Inl ReduceEmpty"
  by (simp add: lazyRobot_def)

lemma goalOrientedRobot_empty:
  "parcels state = [] \<Longrightarrow> goalOrientedRobot graph state [] = Inl (CannotReadUndefined ''place'')"
  by (simp add: goalOrientedRobot_def)

lemma lazyRobot_nonempty:
  assumes "parcels state \<noteq> []"
  shows "lazyRobot graph state rt \<noteq> Inl ReduceEmpty"
proof (cases "rt = []")
  case False
  then show ?thesis by (simp add: lazyRobot_def)
next
  case True
  show ?thesis
  proof (cases "candidates graph (place state) (parcels state)")
    case (Inl e)
    with candidates_error[OF Inl] True show ?thesis by (simp add: lazyRobot_def)
  next
    case (Inr cs)
    from candidates_length[OF Inr] assms obtain a bs where ab: "cs = a # bs"
      by (cases cs) auto
    show ?thesis
    proof (cases "reduce_from better a bs")
      case (Inl e)
      with reduce_from_error[OF Inl] Inr ab True show ?thesis by (simp add: lazyRobot_def)
    next
      case red: (Inr best)
      with Inr ab True show ?thesis
        by (simp add: lazyRobot_def split: option.splits)
    qed
  qed
qed

lemma goalOrientedRobot_nonempty:
  assumes "parcels state \<noteq> []"
  shows "goalOrientedRobot graph state rt \<noteq> Inl (CannotReadUndefined ''place'')"
proof (cases "rt = []")
  case False
  then show ?thesis by (simp add: goalOrientedRobot_def)
next
  case True
  from assms obtain p ps where ps: "parcels state = p # ps" by (cases "parcels state") auto
  let ?fr = "if parcel.place p \<noteq> place state
             then findRoute graph (place state) (parcel.place p)
             else findRoute graph (place state) (address p)"
  show ?thesis
  proof (cases ?fr)
    case (Inl e)
    then have "e = NotIterable" by (auto split: if_splits dest: findRoute_error)
    with Inl True ps show ?thesis by (simp add: goalOrientedRobot_def)
  next
    case (Inr r)
    with True ps show ?thesis by (cases r) (simp_all add: goalOrientedRobot_def)
  qed
qed

lemma countSteps_loop_cong:
  assumes "\<forall>s m. parcels s \<noteq> [] \<longrightarrow> robot s m = robot' s m"
  shows "countSteps_loop fuel graph robot steps state mem
       = countSteps_loop fuel graph robot' steps state mem"
proof (induction fuel arbitrary: steps state mem)
  case 0
  show ?case by simp
next
  case (Suc fuel)
  show ?case
  proof (cases "parcels state = []")
    case True
    then show ?thesis by simp
  next
    case False
    with assms have "robot state mem = robot' state mem" by simp
    with False Suc.IH show ?thesis by (simp split: sum.splits)
  qed
qed

lemma countSteps_loop_error:
  assumes "\<forall>s m. parcels s \<noteq> [] \<longrightarrow> robot s m \<noteq> Inl e" "e \<noteq> CannotReadUndefined ''includes''"
  shows "countSteps_loop fuel graph robot steps state mem \<noteq> Some (Inl e)"
proof (induction fuel arbitrary: steps state mem)
  case 0
  show ?case by simp
next
  case (Suc fuel)
  show ?case
  proof (cases "parcels state = []")
    case True
    then show ?thesis by simp
  next
    case False
    with assms(1) have r: "robot state mem \<noteq> Inl e" by simp
    show ?thesis
    proof (cases "robot state mem")
      case (Inl e')
      with r False show ?thesis by simp
    next
      case (Inr act)
      show ?thesis
      proof (cases "move graph state (direction act)")
        case (Inl e')
        with move_error[OF Inl] assms(2) Inr False show ?thesis by simp
      next
        case mv: (Inr state')
        with Inr False Suc.IH show ?thesis by simp
      qed
    qed
  qed
qed

subsection \<open>The claims about the robots\<close>

text \<open>
  C2. The claim that a tie between candidates goes to the earliest parcel fails: the
  callback keeps its first argument only when that one scores strictly higher, so a
  tie goes to the later candidate. The robot at the Post Office, with a parcel to fetch
  at Alice's House and one to fetch at the Marketplace (both one step away, both
  scoring a half below zero), heads for the Marketplace.
\<close>

theorem lazyRobot_tie_counterexample:
  "candidates roadGraph (Str ''Post Office'')
     [\<lparr>parcel.place = Str ''Alice's House'', address = Str ''Cabin''\<rparr>,
      \<lparr>parcel.place = Str ''Marketplace'', address = Str ''Farm''\<rparr>]
     = Inr [\<lparr>candidate.route = Some [Str ''Alice's House''], pickUp = True\<rparr>,
            \<lparr>candidate.route = Some [Str ''Marketplace''], pickUp = True\<rparr>] \<and>
   score \<lparr>candidate.route = Some [Str ''Alice's House''], pickUp = True\<rparr> = Inr (- 1 / 2) \<and>
   score \<lparr>candidate.route = Some [Str ''Marketplace''], pickUp = True\<rparr> = Inr (- 1 / 2) \<and>
   lazyRobot roadGraph
     \<lparr>place = Str ''Post Office'',
      parcels = [\<lparr>parcel.place = Str ''Alice's House'', address = Str ''Cabin''\<rparr>,
                 \<lparr>parcel.place = Str ''Marketplace'', address = Str ''Farm''\<rparr>]\<rparr> []
     = Inr \<lparr>direction = Str ''Marketplace'', memory = []\<rparr> \<and>
   lazyRobot roadGraph
     \<lparr>place = Str ''Post Office'',
      parcels = [\<lparr>parcel.place = Str ''Alice's House'', address = Str ''Cabin''\<rparr>,
                 \<lparr>parcel.place = Str ''Marketplace'', address = Str ''Farm''\<rparr>]\<rparr> []
     \<noteq> Inr (follow [Str ''Alice's House''])"
  by code_simp

text \<open>
  C2, as the code has it. With at least one parcel, an empty route memory and a route
  for the leg of every parcel, \<open>lazyRobot\<close> builds one candidate per parcel, in order:
  the route of the parcel's leg (to the parcel when it is not at the robot's place, to
  its address otherwise) with the flag \<open>pickUp\<close>, scored as a half for a pick-up minus
  the length of the route. It follows the route of a candidate \<open>best\<close> such that no
  candidate before it scores higher and every candidate after it scores strictly
  lower: a candidate of maximal score, and among several of them the last.
\<close>

theorem lazyRobot_selects_last_best:
  assumes "parcels state \<noteq> []"
    and "\<forall>p \<in> set (parcels state).
           \<exists>rt. findRoute graph (place state) (fst (leg state p)) = Inr (Some rt)"
  shows "\<exists>cs pre best post rt.
           candidates graph (place state) (parcels state) = Inr cs \<and>
           list_all2 (candidate_of graph state) (parcels state) cs \<and>
           (\<forall>c \<in> set cs. score c = Inr (score_of c)) \<and>
           cs = pre @ best # post \<and>
           (\<forall>c \<in> set pre. score_of c \<le> score_of best) \<and>
           (\<forall>c \<in> set post. score_of c < score_of best) \<and>
           candidate.route best = Some rt \<and>
           lazyRobot graph state [] = Inr (follow rt)"
  using assms by (rule lazyRobot_last_best)

theorem lazyRobot_selects_last_best_witness:
  "parcels \<lparr>place = Str ''Post Office'',
      parcels = [\<lparr>parcel.place = Str ''Alice's House'', address = Str ''Cabin''\<rparr>,
                 \<lparr>parcel.place = Str ''Marketplace'', address = Str ''Farm''\<rparr>]\<rparr> \<noteq> [] \<and>
   findRoute roadGraph (Str ''Post Office'') (Str ''Alice's House'')
     = Inr (Some [Str ''Alice's House'']) \<and>
   findRoute roadGraph (Str ''Post Office'') (Str ''Marketplace'')
     = Inr (Some [Str ''Marketplace'']) \<and>
   (\<exists>cs pre best post rt.
      candidates roadGraph (Str ''Post Office'')
        [\<lparr>parcel.place = Str ''Alice's House'', address = Str ''Cabin''\<rparr>,
         \<lparr>parcel.place = Str ''Marketplace'', address = Str ''Farm''\<rparr>] = Inr cs \<and>
      cs = pre @ best # post \<and>
      (\<forall>c \<in> set pre. score_of c \<le> score_of best) \<and>
      (\<forall>c \<in> set post. score_of c < score_of best) \<and>
      candidate.route best = Some rt \<and>
      lazyRobot roadGraph
        \<lparr>place = Str ''Post Office'',
         parcels = [\<lparr>parcel.place = Str ''Alice's House'', address = Str ''Cabin''\<rparr>,
                    \<lparr>parcel.place = Str ''Marketplace'', address = Str ''Farm''\<rparr>]\<rparr> []
        = Inr (follow rt))"
proof -
  let ?s = "\<lparr>place = Str ''Post Office'',
      parcels = [\<lparr>parcel.place = Str ''Alice's House'', address = Str ''Cabin''\<rparr>,
                 \<lparr>parcel.place = Str ''Marketplace'', address = Str ''Farm''\<rparr>]\<rparr>"
  have ne: "parcels ?s \<noteq> []" by simp
  have f0: "findRoute roadGraph (Str ''Post Office'') (Str ''Alice's House'')
     = Inr (Some [Str ''Alice's House''])" by code_simp
  have f1: "findRoute roadGraph (Str ''Post Office'') (Str ''Marketplace'')
     = Inr (Some [Str ''Marketplace''])" by code_simp
  have legs: "\<forall>p \<in> set (parcels ?s).
      \<exists>rt. findRoute roadGraph (place ?s) (fst (leg ?s p)) = Inr (Some rt)"
    by (simp add: leg_def f0 f1)
  from lazyRobot_selects_last_best[OF ne legs] obtain cs pre best post rt where
    "candidates roadGraph (place ?s) (parcels ?s) = Inr cs" "cs = pre @ best # post"
    "\<forall>c \<in> set pre. score_of c \<le> score_of best" "\<forall>c \<in> set post. score_of c < score_of best"
    "candidate.route best = Some rt" "lazyRobot roadGraph ?s [] = Inr (follow rt)"
    by blast
  then have "\<exists>cs pre best post rt.
      candidates roadGraph (Str ''Post Office'')
        [\<lparr>parcel.place = Str ''Alice's House'', address = Str ''Cabin''\<rparr>,
         \<lparr>parcel.place = Str ''Marketplace'', address = Str ''Farm''\<rparr>] = Inr cs \<and>
      cs = pre @ best # post \<and>
      (\<forall>c \<in> set pre. score_of c \<le> score_of best) \<and>
      (\<forall>c \<in> set post. score_of c < score_of best) \<and>
      candidate.route best = Some rt \<and>
      lazyRobot roadGraph ?s [] = Inr (follow rt)"
    by (intro exI[of _ cs] exI[of _ pre] exI[of _ best] exI[of _ post] exI[of _ rt]) simp
  with ne f0 f1 show ?thesis by (intro conjI)
qed

text \<open>
  C10. Both route-finding robots fail on a state without parcels when their route
  memory is empty: \<open>lazyRobot\<close> reduces an empty array, \<open>goalOrientedRobot\<close> reads the
  place of a first parcel that is not there. On a state with a parcel neither failure
  can happen, whatever the memory. \<open>countSteps\<close> asks the robot only about states that
  still have parcels: its result does not depend on what the robot does on the others,
  and with either robot it never ends in one of these two failures.
\<close>

theorem robots_need_parcels:
  "(\<forall>graph state. parcels state = [] \<longrightarrow>
      lazyRobot graph state [] = Inl ReduceEmpty \<and>
      goalOrientedRobot graph state [] = Inl (CannotReadUndefined ''place'')) \<and>
   (\<forall>graph state rt. parcels state \<noteq> [] \<longrightarrow>
      lazyRobot graph state rt \<noteq> Inl ReduceEmpty \<and>
      goalOrientedRobot graph state rt \<noteq> Inl (CannotReadUndefined ''place'')) \<and>
   (\<forall>fuel graph (robot :: VillageState \<Rightarrow> 'm \<Rightarrow> error + 'm action) robot' state mem.
      (\<forall>s m. parcels s \<noteq> [] \<longrightarrow> robot s m = robot' s m) \<longrightarrow>
      countSteps fuel graph robot state mem = countSteps fuel graph robot' state mem) \<and>
   (\<forall>fuel graph state rt.
      countSteps fuel graph (lazyRobot graph) state rt \<noteq> Some (Inl ReduceEmpty) \<and>
      countSteps fuel graph (goalOrientedRobot graph) state rt
        \<noteq> Some (Inl (CannotReadUndefined ''place'')))"
proof (intro conjI allI impI)
  fix graph and state :: VillageState
  assume "parcels state = []"
  then show "lazyRobot graph state [] = Inl ReduceEmpty"
    and "goalOrientedRobot graph state [] = Inl (CannotReadUndefined ''place'')"
    by (rule lazyRobot_empty, rule goalOrientedRobot_empty)
next
  fix graph and state :: VillageState and rt
  assume "parcels state \<noteq> []"
  then show "lazyRobot graph state rt \<noteq> Inl ReduceEmpty"
    and "goalOrientedRobot graph state rt \<noteq> Inl (CannotReadUndefined ''place'')"
    by (rule lazyRobot_nonempty, rule goalOrientedRobot_nonempty)
next
  fix fuel graph and robot robot' :: "VillageState \<Rightarrow> 'm \<Rightarrow> error + 'm action" and state mem
  assume "\<forall>s m. parcels s \<noteq> [] \<longrightarrow> robot s m = robot' s m"
  then show "countSteps fuel graph robot state mem = countSteps fuel graph robot' state mem"
    unfolding countSteps_def by (rule countSteps_loop_cong)
next
  fix fuel graph state rt
  show "countSteps fuel graph (lazyRobot graph) state rt \<noteq> Some (Inl ReduceEmpty)"
    unfolding countSteps_def
    by (rule countSteps_loop_error) (simp_all add: lazyRobot_nonempty)
  show "countSteps fuel graph (goalOrientedRobot graph) state rt
        \<noteq> Some (Inl (CannotReadUndefined ''place''))"
    unfolding countSteps_def
    by (rule countSteps_loop_error) (simp_all add: goalOrientedRobot_nonempty)
qed

theorem robots_need_parcels_witness:
  "parcels \<lparr>place = Str ''Post Office'', parcels = []\<rparr> = [] \<and>
   lazyRobot roadGraph \<lparr>place = Str ''Post Office'', parcels = []\<rparr> [] = Inl ReduceEmpty \<and>
   goalOrientedRobot roadGraph \<lparr>place = Str ''Post Office'', parcels = []\<rparr> []
     = Inl (CannotReadUndefined ''place'') \<and>
   parcels \<lparr>place = Str ''Post Office'',
      parcels = [\<lparr>parcel.place = Str ''Alice's House'', address = Str ''Cabin''\<rparr>]\<rparr> \<noteq> [] \<and>
   lazyRobot roadGraph
     \<lparr>place = Str ''Post Office'',
      parcels = [\<lparr>parcel.place = Str ''Alice's House'', address = Str ''Cabin''\<rparr>]\<rparr> []
     \<noteq> Inl ReduceEmpty \<and>
   goalOrientedRobot roadGraph
     \<lparr>place = Str ''Post Office'',
      parcels = [\<lparr>parcel.place = Str ''Alice's House'', address = Str ''Cabin''\<rparr>]\<rparr> []
     \<noteq> Inl (CannotReadUndefined ''place'') \<and>
   countSteps 10 roadGraph (lazyRobot roadGraph)
     \<lparr>place = Str ''Post Office'',
      parcels = [\<lparr>parcel.place = Str ''Alice's House'', address = Str ''Cabin''\<rparr>]\<rparr> []
     = Some (Inr 2)"
proof -
  let ?e = "\<lparr>place = Str ''Post Office'', parcels = []\<rparr>"
  let ?s = "\<lparr>place = Str ''Post Office'',
      parcels = [\<lparr>parcel.place = Str ''Alice's House'', address = Str ''Cabin''\<rparr>]\<rparr>"
  have e: "parcels ?e = []" by simp
  have s: "parcels ?s \<noteq> []" by simp
  note empty = robots_need_parcels[THEN conjunct1, rule_format, OF e, of roadGraph]
  note nonempty = robots_need_parcels[THEN conjunct2, THEN conjunct1, rule_format, OF s, of roadGraph "[]"]
  have run: "countSteps 10 roadGraph (lazyRobot roadGraph) ?s [] = Some (Inr 2)" by code_simp
  from e s empty nonempty run show ?thesis by (intro conjI) simp_all
qed

end
